theory Spec2Isabelle
  imports Complex_Main
begin

section \<open>PanGEA: panoramic-graph navigation engine\<close>

text \<open>
  A shallow embedding of \<^verbatim>\<open>utils.js\<close> (\<^verbatim>\<open>argmin\<close>, \<^verbatim>\<open>keymin\<close>), of the
  \<^verbatim>\<open>Environment\<close> and \<^verbatim>\<open>Navigator\<close> classes of \<^verbatim>\<open>environment.js\<close>, of
  \<^verbatim>\<open>LineDrawing\<close> of \<^verbatim>\<open>drawing.js\<close> and of the record/replay handler of
  \<^verbatim>\<open>examples/environment_demo.html\<close>.

  Conventions.
  \<^item> JavaScript numbers are idealised as \<^typ>\<open>real\<close>: rounding, overflow and NaN are
    outside the model. The one non-finite number the code writes itself, \<^verbatim>\<open>Infinity\<close>
    in \<^verbatim>\<open>Navigator.update\<close>, is a constructor of the type \<open>number\<close> below.
  \<^item> A thrown exception is a value \<open>Inl e\<close> of a sum type. Where a method mutates the
    object before it throws, the method returns the pair of the optional error and the
    state it leaves behind.
  \<^item> Three.js is a library, not part of the repository. \<open>Vector3\<close>, \<open>Ray\<close> and the position
    column of a \<open>Matrix4\<close> are modelled by the library's documented arithmetic; rendering,
    texture loading, quaternions and the view frustum are not modelled.
\<close>

subsection \<open>Errors\<close>

datatype error =
    TypeError
  | PanoramaNotFound string
  | CannotPruneCurrent
  | PanoramaNotSet

text \<open>Sequencing of computations that may throw: the first exception aborts the rest.\<close>

definition and_then :: "error + 'a \<Rightarrow> ('a \<Rightarrow> error + 'b) \<Rightarrow> error + 'b" where
  "and_then r f = (case r of Inl e \<Rightarrow> Inl e | Inr v \<Rightarrow> f v)"

text \<open>\<^verbatim>\<open>array.map(fn)\<close> for a callback that may throw: elements are visited in order and
  the first exception leaves the loop.\<close>

fun mapE :: "('a \<Rightarrow> error + 'b) \<Rightarrow> 'a list \<Rightarrow> error + 'b list" where
  "mapE f [] = Inr []"
| "mapE f (x # xs) =
     (case f x of
        Inl e \<Rightarrow> Inl e
      | Inr v \<Rightarrow> (case mapE f xs of Inl e \<Rightarrow> Inl e | Inr vs \<Rightarrow> Inr (v # vs)))"

text \<open>\<^verbatim>\<open>array.flatMap(fn)\<close>.\<close>

definition flatMap :: "('a \<Rightarrow> 'b list) \<Rightarrow> 'a list \<Rightarrow> 'b list" where
  "flatMap f xs = concat (map f xs)"

subsection \<open>utils.js\<close>

text \<open>
  \<^verbatim>\<open>array.map((x, i) => [x, i]).reduce((x, y) => x[0] < y[0] ? x : y)[1]\<close>.
  \<open>reducer\<close> is the callback of \<^verbatim>\<open>reduce\<close>; \<^verbatim>\<open>reduce\<close> without an initial value starts
  from the first element and throws a \<^verbatim>\<open>TypeError\<close> on the empty array.
\<close>

definition reducer :: "'a::linorder \<times> nat \<Rightarrow> 'a \<times> nat \<Rightarrow> 'a \<times> nat" where
  "reducer x y = (if fst x < fst y then x else y)"

definition argmin :: "'a::linorder list \<Rightarrow> error + nat" where
  "argmin array =
     (case zip array [0..<length array] of
        [] \<Rightarrow> Inl TypeError
      | p # ps \<Rightarrow> Inr (snd (foldl reducer p ps)))"

text \<open>
  \<^verbatim>\<open>array[argmin(array.map(fn))]\<close>. The index returned by \<open>argmin\<close> is always within the
  array (lemma \<open>argmin_less_length\<close>), so the read never leaves it.
\<close>

definition keymin :: "'a list \<Rightarrow> ('a \<Rightarrow> error + 'k::linorder) \<Rightarrow> error + 'a" where
  "keymin array fn =
     and_then (mapE fn array) (\<lambda>keys.
     and_then (argmin keys) (\<lambda>i. Inr (array ! i)))"

subsection \<open>Pose traces and replay (examples/environment\_demo.html)\<close>

type_synonym Matrix4 = "real list"

record Snapshot =
  snap_id :: string
  snap_exmat :: Matrix4
  snap_inmat :: Matrix4
  time :: real

text \<open>What one invocation of the replay callback does: stop the replay animation, hand a
  snapshot to \<^verbatim>\<open>env.setSnapshot\<close>, or nothing.\<close>

datatype tick = Stop | Apply Snapshot | Nothing

text \<open>The callback of the \<^verbatim>\<open>replay\<close> animation (lines 102--114), at elapsed time
  \<open>elapsedTime\<close>.\<close>

definition replay_callback :: "Snapshot list \<Rightarrow> real \<Rightarrow> real \<Rightarrow> error + tick" where
  "replay_callback snapshots totalTime elapsedTime =
     (if elapsedTime > totalTime then Inr Stop
      else if snapshots \<noteq> [] then
        and_then (keymin snapshots (\<lambda>snapshot. Inr \<bar>time snapshot - elapsedTime\<bar>))
          (\<lambda>snapshot. Inr (Apply snapshot))
      else Inr Nothing)"

text \<open>
  Modelled from the spec: the \<^verbatim>\<open>Animation\<close> class (\<^verbatim>\<open>animation.js\<close>) is not among the
  sources. Following section 4.2 of the specification it invokes its callback once per
  display refresh until \<^verbatim>\<open>stop()\<close> is called, after which no further tick fires. The
  elapsed times of the successive refreshes are the list argument.
\<close>

fun replay :: "Snapshot list \<Rightarrow> real \<Rightarrow> real list \<Rightarrow> error + tick list" where
  "replay snapshots totalTime [] = Inr []"
| "replay snapshots totalTime (t # ts) =
     and_then (replay_callback snapshots totalTime t) (\<lambda>a.
       if a = Stop then Inr [Stop]
       else and_then (replay snapshots totalTime ts) (\<lambda>as. Inr (a # as)))"

text \<open>The click handler of the stop button (lines 95--117):
  \<^verbatim>\<open>const totalTime = snapshots[snapshots.length - 1].time\<close> reads a property of
  \<^verbatim>\<open>undefined\<close> when the array is empty, which throws a \<^verbatim>\<open>TypeError\<close>; then the replay
  animation is started.\<close>

definition stop_button_click :: "Snapshot list \<Rightarrow> real list \<Rightarrow> error + tick list" where
  "stop_button_click snapshots ticks =
     (if snapshots = [] then Inl TypeError
      else replay snapshots (time (last snapshots)) ticks)"

subsection \<open>Three.js arithmetic used by the environment\<close>

datatype Vector3 = Vector3 (vx: real) (vy: real) (vz: real)

definition sub :: "Vector3 \<Rightarrow> Vector3 \<Rightarrow> Vector3" where
  "sub a b = Vector3 (vx a - vx b) (vy a - vy b) (vz a - vz b)"

definition dot :: "Vector3 \<Rightarrow> Vector3 \<Rightarrow> real" where
  "dot a b = vx a * vx b + vy a * vy b + vz a * vz b"

definition multiplyScalar :: "Vector3 \<Rightarrow> real \<Rightarrow> Vector3" where
  "multiplyScalar a s = Vector3 (vx a * s) (vy a * s) (vz a * s)"

definition add :: "Vector3 \<Rightarrow> Vector3 \<Rightarrow> Vector3" where
  "add a b = Vector3 (vx a + vx b) (vy a + vy b) (vz a + vz b)"

definition distanceToSquared :: "Vector3 \<Rightarrow> Vector3 \<Rightarrow> real" where
  "distanceToSquared a b = dot (sub a b) (sub a b)"

definition distanceTo :: "Vector3 \<Rightarrow> Vector3 \<Rightarrow> real" where
  "distanceTo a b = sqrt (distanceToSquared a b)"

definition vlength :: "Vector3 \<Rightarrow> real" where
  "vlength a = sqrt (dot a a)"

text \<open>\<^verbatim>\<open>Vector3.setFromMatrixPosition\<close>: the translation column of the column-major
  \<^verbatim>\<open>elements\<close> array of a \<^verbatim>\<open>Matrix4\<close>.\<close>

definition setFromMatrixPosition :: "Matrix4 \<Rightarrow> Vector3" where
  "setFromMatrixPosition m = Vector3 (m ! 12) (m ! 13) (m ! 14)"

record Ray =
  origin :: Vector3
  direction :: Vector3

text \<open>\<^verbatim>\<open>Ray.distanceSqToPoint\<close> and \<^verbatim>\<open>Ray.distanceToPoint\<close>: a point behind the origin
  is measured from the origin, any other point from its projection onto the ray.\<close>

definition distanceSqToPoint :: "Ray \<Rightarrow> Vector3 \<Rightarrow> real" where
  "distanceSqToPoint ray point =
     (let directionDistance = dot (sub point (origin ray)) (direction ray)
      in if directionDistance < 0 then distanceToSquared (origin ray) point
         else distanceToSquared
                (add (multiplyScalar (direction ray) directionDistance) (origin ray)) point)"

definition distanceToPoint :: "Ray \<Rightarrow> Vector3 \<Rightarrow> real" where
  "distanceToPoint ray point = sqrt (distanceSqToPoint ray point)"

text \<open>The numbers compared in \<^verbatim>\<open>Navigator.update\<close>: a finite distance or \<^verbatim>\<open>Infinity\<close>,
  ordered as JavaScript orders them.\<close>

datatype number = Finite real | Infinity

instantiation number :: linorder
begin

fun less_eq_number :: "number \<Rightarrow> number \<Rightarrow> bool" where
  "less_eq_number (Finite a) (Finite b) = (a \<le> b)"
| "less_eq_number _ Infinity = True"
| "less_eq_number Infinity (Finite b) = False"

fun less_number :: "number \<Rightarrow> number \<Rightarrow> bool" where
  "less_number (Finite a) (Finite b) = (a < b)"
| "less_number (Finite a) Infinity = True"
| "less_number Infinity _ = False"

instance
proof
  fix x y z :: number
  show "(x < y) = (x \<le> y \<and> \<not> y \<le> x)"
    by (cases x; cases y) auto
  show "x \<le> x"
    by (cases x) auto
  show "x \<le> y \<Longrightarrow> y \<le> z \<Longrightarrow> x \<le> z"
    by (cases x; cases y; cases z) auto
  show "x \<le> y \<Longrightarrow> y \<le> x \<Longrightarrow> x = y"
    by (cases x; cases y) auto
  show "x \<le> y \<or> y \<le> x"
    by (cases x; cases y) auto
qed

end

subsection \<open>Environment (environment.js)\<close>

text \<open>
  The \<^verbatim>\<open>Panorama\<close> typedef. \<^verbatim>\<open>navigable\<close> is a required array; \<^verbatim>\<open>visible\<close> and
  \<^verbatim>\<open>curpos\<close> are optional. The \<^verbatim>\<open>materials\<close> cache belongs to texture loading and is
  not modelled.
\<close>

record Panorama =
  pano_id :: string
  exmat :: Matrix4
  urls :: "string list"
  navigable :: "string list"
  visible :: "string list option"
  curpos :: "Vector3 option"

text \<open>
  The fields of \<^verbatim>\<open>Environment\<close> that the navigation logic reads or writes.
  \<open>sourceId\<close> is \<open>None\<close> while the field is still \<^verbatim>\<open>undefined\<close>. \<open>requested\<close> logs, in
  order, the panorama ids passed to \<^verbatim>\<open>getMaterials\<close>: the texture loader itself is an
  external collaborator.
\<close>

record Environment =
  panos :: "Panorama list"
  sourceId :: "string option"
  camera_position :: Vector3
  camera_fov :: real
  requested :: "string list"

definition getPanorama :: "'a Environment_scheme \<Rightarrow> string \<Rightarrow> error + Panorama" where
  "getPanorama env i =
     (case find (\<lambda>pano. pano_id pano = i) (panos env) of
        None \<Rightarrow> Inl (PanoramaNotFound i)
      | Some pano \<Rightarrow> Inr pano)"

definition getExmat :: "'a Environment_scheme \<Rightarrow> string \<Rightarrow> error + Matrix4" where
  "getExmat env i = and_then (getPanorama env i) (\<lambda>pano. Inr (exmat pano))"

definition getPosition :: "'a Environment_scheme \<Rightarrow> string \<Rightarrow> error + Vector3" where
  "getPosition env i = and_then (getExmat env i) (\<lambda>m. Inr (setFromMatrixPosition m))"

definition getClosest :: "'a Environment_scheme \<Rightarrow> Vector3 \<Rightarrow> error + string" where
  "getClosest env pos =
     and_then
       (keymin (panos env)
          (\<lambda>pano. and_then (getPosition env (pano_id pano)) (\<lambda>p. Inr (distanceTo p pos))))
       (\<lambda>pano. Inr (pano_id pano))"

definition getNavigable :: "'a Environment_scheme \<Rightarrow> string \<Rightarrow> error + string list" where
  "getNavigable env i = and_then (getPanorama env i) (\<lambda>pano. Inr (navigable pano))"

definition getVisible :: "'a Environment_scheme \<Rightarrow> string \<Rightarrow> error + string list" where
  "getVisible env i =
     and_then (getPanorama env i) (\<lambda>pano.
       case visible pano of Some mutable \<Rightarrow> Inr mutable | None \<Rightarrow> getNavigable env i)"

definition isVisible :: "'a Environment_scheme \<Rightarrow> string \<Rightarrow> Vector3 \<Rightarrow> error + bool" where
  "isVisible env i pos =
     and_then (getClosest env pos) (\<lambda>closest.
       if i = closest then Inr True
       else and_then (getVisible env i) (\<lambda>vs. Inr (closest \<in> set vs)))"

text \<open>\<^verbatim>\<open>prunePanoramas\<close> throws before it changes anything, so an error carries no state.
  \<open>strip\<close> is the inner \<^verbatim>\<open>flatMap\<close> that drops the pruned ids from an adjacency list.\<close>

definition strip :: "string list \<Rightarrow> string list \<Rightarrow> string list" where
  "strip ids xs = flatMap (\<lambda>i. if i \<in> set ids then [] else [i]) xs"

definition prunePanoramas ::
  "string list \<Rightarrow> 'a Environment_scheme \<Rightarrow> error + 'a Environment_scheme" where
  "prunePanoramas ids env =
     (if (case sourceId env of None \<Rightarrow> False | Some s \<Rightarrow> s \<in> set ids)
      then Inl CannotPruneCurrent
      else Inr (env\<lparr>panos :=
        flatMap (\<lambda>pano.
          if pano_id pano \<in> set ids then []
          else [pano\<lparr>navigable := strip ids (navigable pano),
                     visible := map_option (strip ids) (visible pano)\<rparr>])
          (panos env)\<rparr>))"

definition keepPanoramas ::
  "string list \<Rightarrow> 'a Environment_scheme \<Rightarrow> error + 'a Environment_scheme" where
  "keepPanoramas ids env =
     (let complement =
        flatMap (\<lambda>pano. if pano_id pano \<in> set ids then [] else [pano_id pano]) (panos env)
      in prunePanoramas complement env)"

text \<open>
  Two calls on the same environment object. \<^verbatim>\<open>prunePanoramas\<close> and \<^verbatim>\<open>keepPanoramas\<close> throw
  before their first assignment, so a call that throws leaves the object as it found
  it; the exception ends the sequence, and the object keeps what the earlier call did
  to it.
\<close>

definition call :: "('s \<Rightarrow> error + 's) \<Rightarrow> 's \<Rightarrow> error option \<times> 's" where
  "call f env = (case f env of Inl e \<Rightarrow> (Some e, env) | Inr env' \<Rightarrow> (None, env'))"

definition in_sequence ::
  "('s \<Rightarrow> error + 's) \<Rightarrow> ('s \<Rightarrow> error + 's) \<Rightarrow> 's \<Rightarrow> error option \<times> 's" where
  "in_sequence f g env =
     (case call f env of
        (Some e, env1) \<Rightarrow> (Some e, env1)
      | (None, env1) \<Rightarrow> call g env1)"

text \<open>
  \<^verbatim>\<open>setPanorama\<close> assigns \<^verbatim>\<open>this.sourceId\<close> before \<^verbatim>\<open>getPosition\<close> can throw, so it returns
  the state it leaves behind together with the optional error. Loading the textures of
  the panorama itself is taken to complete; the prefetch of a neighbour that is unknown
  rejects a promise nobody awaits, so it cannot fail the call. The bubble mesh is
  rendering state and is not modelled.
\<close>

definition setPanorama ::
  "string \<Rightarrow> 'a Environment_scheme \<Rightarrow> error option \<times> 'a Environment_scheme" where
  "setPanorama i env =
     (if sourceId env \<noteq> Some i then
        (let env1 = env\<lparr>sourceId := Some i\<rparr> in
         case getPosition env1 i of
           Inl e \<Rightarrow> (Some e, env1)
         | Inr p \<Rightarrow>
            (let env2 = env1\<lparr>camera_position := p\<rparr>;
                 env3 = env2\<lparr>requested := requested env2 @ [i]\<rparr>
             in case getNavigable env3 i of
                  Inl e \<Rightarrow> (Some e, env3)
                | Inr ns \<Rightarrow> (None, env3\<lparr>requested := requested env3 @ ns\<rparr>)))
      else (None, env))"

subsection \<open>Navigator (environment.js)\<close>

record Navigator = Environment +
  cursor_visible :: bool
  targetId :: "string option"
  controls_enabled :: bool

text \<open>JavaScript truthiness of a \<^verbatim>\<open>string | null\<close> field: \<^verbatim>\<open>undefined\<close> and the empty
  string are falsy.\<close>

definition truthy :: "string option \<Rightarrow> bool" where
  "truthy s = (case s of None \<Rightarrow> False | Some v \<Rightarrow> v \<noteq> [])"

definition getCurpos :: "'a Environment_scheme \<Rightarrow> string \<Rightarrow> error + Vector3" where
  "getCurpos env i =
     and_then (getPanorama env i) (\<lambda>pano.
       case curpos pano of Some mutable \<Rightarrow> Inr mutable | None \<Rightarrow> getPosition env i)"

text \<open>The distance list of \<^verbatim>\<open>update\<close>: \<^verbatim>\<open>Infinity\<close> for a cursor position behind the
  viewing plane, the distance from the ray otherwise.\<close>

definition distances :: "Ray \<Rightarrow> Vector3 list \<Rightarrow> number list" where
  "distances ray curposs =
     map (\<lambda>pos.
       if dot (sub pos (origin ray)) (direction ray) < 0 then Infinity
       else Finite (distanceToPoint ray pos)) curposs"

text \<open>
  \<^verbatim>\<open>Navigator.update\<close>, target selection. The ray that \<^verbatim>\<open>raycaster.setFromCamera\<close>
  computes from the mouse and the camera is the argument \<open>ray\<close>. Every exception is thrown
  before the first assignment, so an error carries no state. The frustum clamp only
  moves the drawn cursor and is not modelled.
\<close>

definition update :: "Ray \<Rightarrow> 'a Navigator_scheme \<Rightarrow> error + 'a Navigator_scheme" where
  "update ray nav =
     (case sourceId nav of
        None \<Rightarrow> Inl PanoramaNotSet
      | Some source \<Rightarrow>
          if \<not> truthy (Some source) then Inl PanoramaNotSet
          else
            and_then (getNavigable nav source) (\<lambda>neighbors.
              if neighbors \<noteq> [] then
                and_then (mapE (getCurpos nav) neighbors) (\<lambda>curposs.
                and_then (argmin (distances ray curposs)) (\<lambda>i.
                  if distances ray curposs ! i = Infinity
                  then Inr (nav\<lparr>cursor_visible := False, targetId := None\<rparr>)
                  else Inr (nav\<lparr>cursor_visible := True,
                                targetId := Some (neighbors ! i)\<rparr>)))
              else Inr nav))"

text \<open>
  \<^verbatim>\<open>Navigator.ondblclick\<close>. \<open>tween_times\<close> are the values of \<^verbatim>\<open>data.time\<close> at the successive
  \<^verbatim>\<open>onUpdate\<close> calls of the tween, which then calls \<^verbatim>\<open>onComplete\<close> once.
  \<^verbatim>\<open>Math.min(distance, 1 / distance)\<close> is \<open>0\<close> at distance \<open>0\<close>, where \<^verbatim>\<open>1 / distance\<close> is
  \<^verbatim>\<open>Infinity\<close>.
\<close>

definition onUpdate :: "real \<Rightarrow> real \<Rightarrow> 'a Navigator_scheme \<Rightarrow> real \<Rightarrow> 'a Navigator_scheme" where
  "onUpdate fov0 fov1 nav t = nav\<lparr>camera_fov := (1 - t) * fov0 + t * fov1\<rparr>"

definition onComplete ::
  "real \<Rightarrow> string \<Rightarrow> 'a Navigator_scheme \<Rightarrow> error option \<times> 'a Navigator_scheme" where
  "onComplete fov0 target nav =
     (case setPanorama target (nav\<lparr>camera_fov := fov0\<rparr>) of
        (Some e, nav') \<Rightarrow> (Some e, nav')
      | (None, nav') \<Rightarrow> (None, nav'\<lparr>controls_enabled := True\<rparr>))"

definition ondblclick ::
  "real list \<Rightarrow> 'a Navigator_scheme \<Rightarrow> error option \<times> 'a Navigator_scheme" where
  "ondblclick tween_times nav =
     (if controls_enabled nav \<and> truthy (targetId nav) then
        (let nav1 = nav\<lparr>controls_enabled := False\<rparr> in
         case (sourceId nav1, targetId nav1) of
           (Some source, Some target) \<Rightarrow>
             (case getPosition nav1 source of
                Inl e \<Rightarrow> (Some e, nav1)
              | Inr p0 \<Rightarrow>
                 (case getPosition nav1 target of
                    Inl e \<Rightarrow> (Some e, nav1)
                  | Inr p1 \<Rightarrow>
                     (let distance = vlength (sub p1 p0);
                          fov0 = camera_fov nav1;
                          fov1 = fov0 * (if distance = 0 then 0
                                         else min distance (1 / distance))
                      in onComplete fov0 target (foldl (onUpdate fov0 fov1) nav1 tween_times))))
         | (None, _) \<Rightarrow> (Some (PanoramaNotFound ''undefined''), nav1)
         | (_, None) \<Rightarrow> (None, nav1))
      else (None, nav))"

subsection \<open>LineDrawing (drawing.js)\<close>

text \<open>
  \<open>subpoints\<close> is the output of \<^verbatim>\<open>getIntermediatePoints\<close> (not modelled: it is
  floating-point interpolation). \<open>children_visible\<close> holds the \<^verbatim>\<open>visible\<close> flag of each
  child, one child per subpoint; a new Three.js object is visible.
\<close>

record LineDrawing =
  subpoints :: "Vector3 list"
  anchors :: "string list"
  children_visible :: "bool list"

definition newLineDrawing :: "'a Environment_scheme \<Rightarrow> Vector3 list \<Rightarrow> error + LineDrawing" where
  "newLineDrawing env points =
     and_then (mapE (getClosest env) points) (\<lambda>as.
       Inr \<lparr>subpoints = points, anchors = as,
            children_visible = map (\<lambda>_. True) points\<rparr>)"

text \<open>The body of the \<^verbatim>\<open>forEach\<close> callback of \<^verbatim>\<open>LineDrawing.update\<close>: \<^verbatim>\<open>||\<close> evaluates
  \<^verbatim>\<open>getVisible\<close> only when the anchor differs from \<^verbatim>\<open>sourceId\<close>.\<close>

definition child_visible :: "'a Environment_scheme \<Rightarrow> string \<Rightarrow> error + bool" where
  "child_visible env anchor =
     (if sourceId env = Some anchor then Inr True
      else case sourceId env of
             None \<Rightarrow> Inl (PanoramaNotFound ''undefined'')
           | Some source \<Rightarrow>
               and_then (getVisible env source) (\<lambda>vs. Inr (anchor \<in> set vs)))"

definition drawing_update :: "'a Environment_scheme \<Rightarrow> LineDrawing \<Rightarrow> error + LineDrawing" where
  "drawing_update env d =
     and_then (mapE (child_visible env) (anchors d)) (\<lambda>vs.
       Inr (d\<lparr>children_visible := vs\<rparr>))"

subsection \<open>Specification predicates\<close>

text \<open>\<open>i\<close> is the last index at which \<open>xs\<close> takes its least value.\<close>

definition last_argmin :: "'a::linorder list \<Rightarrow> nat \<Rightarrow> bool" where
  "last_argmin xs i \<longleftrightarrow>
     i < length xs \<and> (\<forall>j<length xs. xs ! i \<le> xs ! j) \<and>
     (\<forall>j<length xs. i < j \<longrightarrow> xs ! i < xs ! j)"

text \<open>The ids of the panoramas of the graph, the ids a panorama lists as navigable or
  visible, and the adjacency invariant of the data model: every listed id names a
  panorama of the graph.\<close>

definition node_ids :: "'a Environment_scheme \<Rightarrow> string set" where
  "node_ids env = pano_id ` set (panos env)"

definition adjacent :: "Panorama \<Rightarrow> string set" where
  "adjacent pano =
     set (navigable pano) \<union> (case visible pano of None \<Rightarrow> {} | Some vs \<Rightarrow> set vs)"

definition no_dangling :: "'a Environment_scheme \<Rightarrow> bool" where
  "no_dangling env \<longleftrightarrow> (\<forall>pano\<in>set (panos env). adjacent pano \<subseteq> node_ids env)"

text \<open>The position of a panorama: the translation of its own \<^verbatim>\<open>exmat\<close>.\<close>

definition position :: "Panorama \<Rightarrow> Vector3" where
  "position pano = setFromMatrixPosition (exmat pano)"

text \<open>Closed forms used in the proofs about pruning: a panorama with \<open>ids\<close> filtered
  from its lists, the guard of \<^verbatim>\<open>prunePanoramas\<close>, the list \<^verbatim>\<open>complement\<close> computed by
  \<^verbatim>\<open>keepPanoramas\<close>, and the environment a successful pruning returns.\<close>

definition stripped :: "string list \<Rightarrow> Panorama \<Rightarrow> Panorama" where
  "stripped ids pano =
     pano\<lparr>navigable := filter (\<lambda>i. i \<notin> set ids) (navigable pano),
          visible := map_option (filter (\<lambda>i. i \<notin> set ids)) (visible pano)\<rparr>"

definition may_prune :: "string list \<Rightarrow> 'a Environment_scheme \<Rightarrow> bool" where
  "may_prune ids env \<longleftrightarrow> (\<forall>s. sourceId env = Some s \<longrightarrow> s \<notin> set ids)"

definition complement :: "string list \<Rightarrow> 'a Environment_scheme \<Rightarrow> string list" where
  "complement ids env =
     flatMap (\<lambda>pano. if pano_id pano \<in> set ids then [] else [pano_id pano]) (panos env)"

definition pruned :: "string list \<Rightarrow> 'a Environment_scheme \<Rightarrow> 'a Environment_scheme" where
  "pruned ids env =
     env\<lparr>panos := map (stripped ids) (filter (\<lambda>p. pano_id p \<notin> set ids) (panos env))\<rparr>"

subsection \<open>Example data\<close>

text \<open>A pose trace with the timestamps \<open>[0, 100, 250]\<close>, and one in which the
  elapsed time \<open>50\<close> is equally far from both snapshots.\<close>

definition trace3 :: "Snapshot list" where
  "trace3 = [\<lparr>snap_id = ''a'', snap_exmat = [], snap_inmat = [], time = 0\<rparr>,
             \<lparr>snap_id = ''a'', snap_exmat = [], snap_inmat = [], time = 100\<rparr>,
             \<lparr>snap_id = ''b'', snap_exmat = [], snap_inmat = [], time = 250\<rparr>]"

definition tie_trace :: "Snapshot list" where
  "tie_trace = [\<lparr>snap_id = ''a'', snap_exmat = [], snap_inmat = [], time = 0\<rparr>,
                \<lparr>snap_id = ''b'', snap_exmat = [], snap_inmat = [], time = 100\<rparr>]"

text \<open>The \<^verbatim>\<open>elements\<close> of an unrotated \<^verbatim>\<open>Matrix4\<close> placed at \<open>(a, b, c)\<close>.\<close>

definition translation :: "real \<Rightarrow> real \<Rightarrow> real \<Rightarrow> Matrix4" where
  "translation a b c = [1, 0, 0, 0, 0, 1, 0, 0, 0, 0, 1, 0, a, b, c, 1]"

text \<open>
  The path A--B--C on the x axis at \<open>0\<close>, \<open>1\<close> and \<open>2\<close>: A and B see each other, B and C
  see each other, A and C do not. C has no \<^verbatim>\<open>visible\<close> list, so its navigable list
  stands in. The current panorama is A. \<open>abc_nav\<close> is a navigator on the same graph.
\<close>

definition abc_env :: Environment where
  "abc_env =
     \<lparr>panos =
        [\<lparr>pano_id = ''A'', exmat = translation 0 0 0, urls = [], navigable = [''B''],
          visible = Some [''B''], curpos = None\<rparr>,
         \<lparr>pano_id = ''B'', exmat = translation 1 0 0, urls = [], navigable = [''A'', ''C''],
          visible = Some [''A'', ''C''], curpos = None\<rparr>,
         \<lparr>pano_id = ''C'', exmat = translation 2 0 0, urls = [], navigable = [''B''],
          visible = None, curpos = None\<rparr>],
      sourceId = Some ''A'', camera_position = Vector3 0 0 0, camera_fov = 50,
      requested = []\<rparr>"

definition abc_nav :: Navigator where
  "abc_nav =
     \<lparr>panos = panos abc_env, sourceId = Some ''A'', camera_position = Vector3 0 0 0,
      camera_fov = 50, requested = [], cursor_visible = False, targetId = None,
      controls_enabled = True\<rparr>"

text \<open>Six points along the path and the drawing they give in \<open>abc_env\<close>.\<close>

definition abc_path :: "Vector3 list" where
  "abc_path = [Vector3 0 0 0, Vector3 (1/4) 0 0, Vector3 (3/4) 0 0, Vector3 1 0 0,
               Vector3 (7/4) 0 0, Vector3 2 0 0]"

definition abc_drawing :: LineDrawing where
  "abc_drawing =
     \<lparr>subpoints = abc_path, anchors = [''A'', ''A'', ''B'', ''B'', ''C'', ''C''],
      children_visible = [True, True, True, True, True, True]\<rparr>"

text \<open>A graph in which panorama A lists \<open>Z\<close>, which names no panorama.\<close>

definition dangling_env :: Environment where
  "dangling_env =
     \<lparr>panos =
        [\<lparr>pano_id = ''A'', exmat = translation 0 0 0, urls = [], navigable = [''B'', ''Z''],
          visible = None, curpos = None\<rparr>,
         \<lparr>pano_id = ''B'', exmat = translation 1 0 0, urls = [], navigable = [''A''],
          visible = None, curpos = None\<rparr>],
      sourceId = Some ''A'', camera_position = Vector3 0 0 0, camera_fov = 50,
      requested = []\<rparr>"

text \<open>Two panoramas at equal distance from the origin, and two at the same position.\<close>

definition tie_env :: Environment where
  "tie_env =
     \<lparr>panos =
        [\<lparr>pano_id = ''A'', exmat = translation (-1) 0 0, urls = [], navigable = [''B''],
          visible = None, curpos = None\<rparr>,
         \<lparr>pano_id = ''B'', exmat = translation 1 0 0, urls = [], navigable = [''A''],
          visible = None, curpos = None\<rparr>],
      sourceId = None, camera_position = Vector3 0 0 0, camera_fov = 50,
      requested = []\<rparr>"

definition twin_env :: Environment where
  "twin_env =
     \<lparr>panos =
        [\<lparr>pano_id = ''A'', exmat = translation 0 0 0, urls = [], navigable = [''B''],
          visible = None, curpos = None\<rparr>,
         \<lparr>pano_id = ''B'', exmat = translation 0 0 0, urls = [], navigable = [''A''],
          visible = None, curpos = None\<rparr>],
      sourceId = None, camera_position = Vector3 0 0 0, camera_fov = 50,
      requested = []\<rparr>"

text \<open>A ray from A along \<open>-z\<close>, and one from B towards C.\<close>

definition look_ray :: Ray where
  "look_ray = \<lparr>origin = Vector3 0 0 0, direction = Vector3 0 0 (-1)\<rparr>"

definition east_ray :: Ray where
  "east_ray = \<lparr>origin = Vector3 1 0 0, direction = Vector3 1 0 0\<rparr>"

section \<open>Verification\<close>

subsection \<open>and\_then, mapE\<close>

lemma and_then_Inr [simp]: "and_then (Inr v) f = f v"
  by (simp add: and_then_def)

lemma and_then_Inl [simp]: "and_then (Inl e) f = Inl e"
  by (simp add: and_then_def)

lemma and_then_eq_Inr:
  "and_then r f = Inr w \<longleftrightarrow> (\<exists>v. r = Inr v \<and> f v = Inr w)"
  by (cases r) simp_all

lemma mapE_total: "(\<forall>x\<in>set xs. f x = Inr (g x)) \<Longrightarrow> mapE f xs = Inr (map g xs)"
  by (induction xs) simp_all

lemma mapE_Inr_length: "mapE f xs = Inr ys \<Longrightarrow> length ys = length xs"
  by (induction xs arbitrary: ys) (auto split: sum.splits)

lemma mapE_Inr_nth: "mapE f xs = Inr ys \<Longrightarrow> i < length xs \<Longrightarrow> f (xs ! i) = Inr (ys ! i)"
proof (induction xs arbitrary: ys i)
  case Nil
  then show ?case by simp
next
  case (Cons x xs)
  then show ?case by (cases i) (auto split: sum.splits)
qed

subsection \<open>argmin returns the last index of a minimal element\<close>

lemma zip_upt_Cons:
  "zip (y # ys) [n..<n + length (y # ys)] = (y, n) # zip ys [Suc n..<Suc n + length ys]"
proof -
  have "[n..<n + length (y # ys)] = n # [Suc n..<Suc n + length ys]"
    using upt_conv_Cons[of n "n + length (y # ys)"] by simp
  then show ?thesis by (simp del: upt_Suc)
qed

lemma reducer_lt: "v < y \<Longrightarrow> reducer (v, a) (y, n) = (v, a)"
  by (simp add: reducer_def)

lemma reducer_ge: "\<not> v < y \<Longrightarrow> reducer (v, a) (y, n) = (y, n)"
  by (simp add: reducer_def)

lemma foldl_reducer:
  "a < n \<Longrightarrow> foldl reducer (v, a) (zip ys [n..<n + length ys]) = (w, m) \<Longrightarrow>
     w \<le> v \<and> (\<forall>y\<in>set ys. w \<le> y) \<and>
     ((m = a \<and> w = v \<and> (\<forall>y\<in>set ys. v < y)) \<or>
      (n \<le> m \<and> m < n + length ys \<and> ys ! (m - n) = w \<and>
       (\<forall>j. m - n < j \<and> j < length ys \<longrightarrow> w < ys ! j)))"
proof (induction ys arbitrary: v a n)
  case Nil
  then show ?case by simp
next
  case (Cons y ys)
  let ?rest = "zip ys [Suc n..<Suc n + length ys]"
  show ?case
  proof (cases "v < y")
    case True
    with Cons.prems(2) have f: "foldl reducer (v, a) ?rest = (w, m)"
      by (simp only: zip_upt_Cons foldl_Cons reducer_lt[OF True])
    from Cons.prems(1) have "a < Suc n" by simp
    from Cons.IH[OF this f] have ih: "w \<le> v" "\<forall>y\<in>set ys. w \<le> y"
      "(m = a \<and> w = v \<and> (\<forall>y\<in>set ys. v < y)) \<or>
      (Suc n \<le> m \<and> m < Suc n + length ys \<and> ys ! (m - Suc n) = w \<and>
       (\<forall>j. m - Suc n < j \<and> j < length ys \<longrightarrow> w < ys ! j))" by blast+
    from ih(3) show ?thesis
    proof
      assume "m = a \<and> w = v \<and> (\<forall>y\<in>set ys. v < y)"
      with True show ?thesis by (auto intro: less_imp_le)
    next
      assume r: "Suc n \<le> m \<and> m < Suc n + length ys \<and> ys ! (m - Suc n) = w \<and>
       (\<forall>j. m - Suc n < j \<and> j < length ys \<longrightarrow> w < ys ! j)"
      then have eq: "m - n = Suc (m - Suc n)" by arith
      have "\<forall>j. m - n < j \<and> j < length (y # ys) \<longrightarrow> w < (y # ys) ! j"
      proof (intro allI impI)
        fix j assume j: "m - n < j \<and> j < length (y # ys)"
        then obtain j' where j': "j = Suc j'" by (cases j) auto
        with j eq have "m - Suc n < j' \<and> j' < length ys" by simp
        with r have "w < ys ! j'" by blast
        with j' show "w < (y # ys) ! j" by simp
      qed
      moreover have "(y # ys) ! (m - n) = w" using r eq by simp
      moreover have "w \<le> y" using ih(1) True by simp
      ultimately show ?thesis using r ih(1,2) by auto
    qed
  next
    case False
    with Cons.prems(2) have f: "foldl reducer (y, n) ?rest = (w, m)"
      by (simp only: zip_upt_Cons foldl_Cons reducer_ge[OF False])
    have "n < Suc n" by simp
    from Cons.IH[OF this f] have ih: "w \<le> y" "\<forall>y\<in>set ys. w \<le> y"
      "(m = n \<and> w = y \<and> (\<forall>z\<in>set ys. y < z)) \<or>
      (Suc n \<le> m \<and> m < Suc n + length ys \<and> ys ! (m - Suc n) = w \<and>
       (\<forall>j. m - Suc n < j \<and> j < length ys \<longrightarrow> w < ys ! j))" by blast+
    from False have yv: "y \<le> v" by simp
    from ih(3) show ?thesis
    proof
      assume l: "m = n \<and> w = y \<and> (\<forall>z\<in>set ys. y < z)"
      have "\<forall>j. m - n < j \<and> j < length (y # ys) \<longrightarrow> w < (y # ys) ! j"
      proof (intro allI impI)
        fix j assume j: "m - n < j \<and> j < length (y # ys)"
        then obtain j' where j': "j = Suc j'" by (cases j) auto
        with j have "j' < length ys" by simp
        then have "ys ! j' \<in> set ys" by simp
        with l j' show "w < (y # ys) ! j" by simp
      qed
      with l yv ih(2) show ?thesis by auto
    next
      assume r: "Suc n \<le> m \<and> m < Suc n + length ys \<and> ys ! (m - Suc n) = w \<and>
       (\<forall>j. m - Suc n < j \<and> j < length ys \<longrightarrow> w < ys ! j)"
      then have eq: "m - n = Suc (m - Suc n)" by arith
      have "\<forall>j. m - n < j \<and> j < length (y # ys) \<longrightarrow> w < (y # ys) ! j"
      proof (intro allI impI)
        fix j assume j: "m - n < j \<and> j < length (y # ys)"
        then obtain j' where j': "j = Suc j'" by (cases j) auto
        with j eq have "m - Suc n < j' \<and> j' < length ys" by simp
        with r have "w < ys ! j'" by blast
        with j' show "w < (y # ys) ! j" by simp
      qed
      moreover have "(y # ys) ! (m - n) = w" using r eq by simp
      ultimately show ?thesis using r ih(1,2) yv by auto
    qed
  qed
qed

lemma argmin_Nil: "argmin [] = Inl TypeError"
  by (simp add: argmin_def)

lemma argmin_Cons_ex: "\<exists>i. argmin (x # xs) = Inr i"
  using zip_upt_Cons[of x xs 0] by (simp add: argmin_def del: upt_Suc)

lemma argmin_last_argmin:
  assumes "argmin xs = Inr i"
  shows "last_argmin xs i"
proof (cases xs)
  case Nil
  with assms show ?thesis by (simp add: argmin_def)
next
  case (Cons x ys)
  obtain w m where wm: "foldl reducer (x, 0) (zip ys [Suc 0..<Suc 0 + length ys]) = (w, m)"
    by (cases "foldl reducer (x, 0) (zip ys [Suc 0..<Suc 0 + length ys])")
  with assms Cons zip_upt_Cons[of x ys 0] have im: "i = m"
    by (simp add: argmin_def del: upt_Suc)
  have "(0::nat) < Suc 0" by simp
  from foldl_reducer[OF this wm]
  have ih: "w \<le> x" "\<forall>y\<in>set ys. w \<le> y"
      "(m = 0 \<and> w = x \<and> (\<forall>z\<in>set ys. x < z)) \<or>
      (Suc 0 \<le> m \<and> m < Suc 0 + length ys \<and> ys ! (m - Suc 0) = w \<and>
       (\<forall>j. m - Suc 0 < j \<and> j < length ys \<longrightarrow> w < ys ! j))" by blast+
  from ih(3) show ?thesis
  proof
    assume l: "m = 0 \<and> w = x \<and> (\<forall>z\<in>set ys. x < z)"
    then have "\<forall>j<length (x # ys). (x # ys) ! 0 \<le> (x # ys) ! j"
      by (auto simp: nth_Cons split: nat.splits intro: less_imp_le)
    moreover from l have "\<forall>j<length (x # ys). 0 < j \<longrightarrow> (x # ys) ! 0 < (x # ys) ! j"
      by (auto simp: nth_Cons split: nat.splits)
    ultimately show ?thesis using l im Cons by (simp add: last_argmin_def)
  next
    assume r: "Suc 0 \<le> m \<and> m < Suc 0 + length ys \<and> ys ! (m - Suc 0) = w \<and>
       (\<forall>j. m - Suc 0 < j \<and> j < length ys \<longrightarrow> w < ys ! j)"
    then obtain m' where m': "m = Suc m'" by (cases m) auto
    with r have w: "ys ! m' = w" "m' < length ys" by auto
    have a: "\<forall>j<length (x # ys). (x # ys) ! m \<le> (x # ys) ! j"
      using ih(1,2) w m' by (auto simp: nth_Cons split: nat.splits)
    have b: "\<forall>j<length (x # ys). m < j \<longrightarrow> (x # ys) ! m < (x # ys) ! j"
    proof (intro allI impI)
      fix j assume "j < length (x # ys)" "m < j"
      then obtain j' where "j = Suc j'" "m' < j'" "j' < length ys" using m' by (cases j) auto
      with r m' w show "(x # ys) ! m < (x # ys) ! j" by simp
    qed
    from a b w m' im Cons show ?thesis by (simp add: last_argmin_def)
  qed
qed

lemma last_argmin_unique: "last_argmin xs i \<Longrightarrow> last_argmin xs j \<Longrightarrow> i = j"
  unfolding last_argmin_def by (metis linorder_neqE_nat not_less)

lemma argmin_iff: "argmin xs = Inr i \<longleftrightarrow> last_argmin xs i"
proof
  assume "argmin xs = Inr i" then show "last_argmin xs i" by (rule argmin_last_argmin)
next
  assume l: "last_argmin xs i"
  then have "xs \<noteq> []" by (auto simp: last_argmin_def)
  then obtain x ys where "xs = x # ys" by (cases xs) auto
  with argmin_Cons_ex obtain k where k: "argmin xs = Inr k" by blast
  from argmin_last_argmin[OF k] l have "k = i" by (rule last_argmin_unique)
  with k show "argmin xs = Inr i" by simp
qed

lemma last_argmin_map:
  "last_argmin (map g xs) i \<longleftrightarrow>
     i < length xs \<and> (\<forall>j<length xs. g (xs ! i) \<le> g (xs ! j)) \<and>
     (\<forall>j<length xs. i < j \<longrightarrow> g (xs ! i) < g (xs ! j))"
  by (auto simp: last_argmin_def)

lemma argmin_nonempty: "xs \<noteq> [] \<Longrightarrow> \<exists>i. argmin xs = Inr i \<and> last_argmin xs i"
proof -
  assume "xs \<noteq> []"
  then obtain x ys where "xs = x # ys" by (cases xs) auto
  with argmin_Cons_ex obtain k where "argmin xs = Inr k" by blast
  then show ?thesis using argmin_last_argmin by blast
qed

lemma argmin_less_length: "argmin xs = Inr i \<Longrightarrow> i < length xs"
  using argmin_last_argmin[of xs i] by (simp add: last_argmin_def)

lemma keymin_total:
  assumes "array \<noteq> []"
  shows "\<exists>i. last_argmin (map g array) i \<and> keymin array (\<lambda>x. Inr (g x)) = Inr (array ! i)"
proof -
  have m: "mapE (\<lambda>x. Inr (g x)) array = Inr (map g array)"
    by (rule mapE_total) simp
  from assms have "map g array \<noteq> []" by simp
  from argmin_nonempty[OF this] obtain i
    where "argmin (map g array) = Inr i" "last_argmin (map g array) i" by blast
  with m show ?thesis by (auto simp: keymin_def)
qed

subsection \<open>Replay\<close>

lemma replay_callback_stop:
  "totalTime < t \<Longrightarrow> replay_callback snapshots totalTime t = Inr Stop"
  by (simp add: replay_callback_def)

lemma replay_callback_apply:
  assumes "snapshots \<noteq> []" "t \<le> totalTime"
  shows "\<exists>i. last_argmin (map (\<lambda>s. \<bar>time s - t\<bar>) snapshots) i \<and>
             replay_callback snapshots totalTime t = Inr (Apply (snapshots ! i))"
proof -
  from keymin_total[OF assms(1), of "\<lambda>s. \<bar>time s - t\<bar>"] obtain i
    where "last_argmin (map (\<lambda>s. \<bar>time s - t\<bar>) snapshots) i"
      "keymin snapshots (\<lambda>x. Inr \<bar>time x - t\<bar>) = Inr (snapshots ! i)" by blast
  with assms show ?thesis by (auto simp: replay_callback_def)
qed

lemma replay_prefix:
  assumes "snapshots \<noteq> []" "\<forall>u\<in>set ts. u \<le> totalTime" "totalTime < t"
  shows "\<exists>as. replay snapshots totalTime (ts @ t # rest) = Inr (as @ [Stop]) \<and>
              length as = length ts \<and> (\<forall>a\<in>set as. \<exists>s\<in>set snapshots. a = Apply s)"
  using assms(2)
proof (induction ts)
  case Nil
  with assms(3) show ?case by (simp add: replay_callback_stop)
next
  case (Cons u us)
  then obtain as where as: "replay snapshots totalTime (us @ t # rest) = Inr (as @ [Stop])"
    "length as = length us" "\<forall>a\<in>set as. \<exists>s\<in>set snapshots. a = Apply s" by auto
  from Cons.prems have "u \<le> totalTime" by simp
  from replay_callback_apply[OF assms(1) this] obtain i
    where i: "last_argmin (map (\<lambda>s. \<bar>time s - u\<bar>) snapshots) i"
      "replay_callback snapshots totalTime u = Inr (Apply (snapshots ! i))" by blast
  then have "i < length snapshots" by (simp add: last_argmin_def)
  then have "snapshots ! i \<in> set snapshots" by simp
  with as i(2) show ?case
    by (intro exI[of _ "Apply (snapshots ! i) # as"]) simp
qed

text \<open>
  Claim C1, amended. While the elapsed time \<open>t\<close> does not exceed the last recorded
  timestamp of a non-empty trace, the replay callback hands to \<^verbatim>\<open>setSnapshot\<close> a
  snapshot minimising \<open>\<bar>time s - t\<bar>\<close>, unchanged and not interpolated, and among equally
  near snapshots the one recorded last. Once \<open>t\<close> exceeds the last timestamp the
  callback stops the replay, and the replay started by the stop button ends at the
  first such tick whatever ticks would follow. For every trace with the timestamps
  \<open>[0, 100, 250]\<close>, the tick at \<open>120\<close> applies the snapshot recorded at \<open>100\<close>; the
  selection \<open>keymin\<close> at \<open>400\<close> yields the snapshot recorded at \<open>250\<close>, and the replay
  tick at \<open>400\<close> stops.
\<close>

theorem replay_nearest_latest:
  "(snapshots \<noteq> [] \<and> t \<le> time (last snapshots) \<longrightarrow>
      (\<exists>i<length snapshots.
          replay_callback snapshots (time (last snapshots)) t = Inr (Apply (snapshots ! i)) \<and>
          (\<forall>j<length snapshots. \<bar>time (snapshots ! i) - t\<bar> \<le> \<bar>time (snapshots ! j) - t\<bar>) \<and>
          (\<forall>j<length snapshots. i < j \<longrightarrow>
               \<bar>time (snapshots ! i) - t\<bar> < \<bar>time (snapshots ! j) - t\<bar>))) \<and>
   (time (last snapshots) < t \<longrightarrow>
      replay_callback snapshots (time (last snapshots)) t = Inr Stop) \<and>
   (snapshots \<noteq> [] \<and> (\<forall>u\<in>set ts. u \<le> time (last snapshots)) \<and> time (last snapshots) < t \<longrightarrow>
      (\<exists>as. stop_button_click snapshots (ts @ t # rest) = Inr (as @ [Stop]) \<and>
            length as = length ts \<and> Stop \<notin> set as)) \<and>
   (map time tr = [0, 100, 250] \<longrightarrow>
      replay_callback tr 250 120 = Inr (Apply (tr ! 1)) \<and>
      keymin tr (\<lambda>s. Inr \<bar>time s - 400\<bar>) = Inr (tr ! 2) \<and>
      replay_callback tr 250 400 = Inr Stop)"
proof (intro conjI impI)
  assume a: "snapshots \<noteq> [] \<and> t \<le> time (last snapshots)"
  then have "snapshots \<noteq> []" "t \<le> time (last snapshots)" by simp_all
  from replay_callback_apply[OF this] obtain i
    where i: "last_argmin (map (\<lambda>s. \<bar>time s - t\<bar>) snapshots) i"
      "replay_callback snapshots (time (last snapshots)) t = Inr (Apply (snapshots ! i))"
    by blast
  from i(1) have "i < length snapshots" by (simp add: last_argmin_map)
  moreover from i(1) have "\<forall>j<length snapshots.
      \<bar>time (snapshots ! i) - t\<bar> \<le> \<bar>time (snapshots ! j) - t\<bar>"
    by (simp add: last_argmin_map)
  moreover from i(1) have "\<forall>j<length snapshots. i < j \<longrightarrow>
      \<bar>time (snapshots ! i) - t\<bar> < \<bar>time (snapshots ! j) - t\<bar>"
    by (simp add: last_argmin_map)
  ultimately show "\<exists>i<length snapshots.
          replay_callback snapshots (time (last snapshots)) t = Inr (Apply (snapshots ! i)) \<and>
          (\<forall>j<length snapshots. \<bar>time (snapshots ! i) - t\<bar> \<le> \<bar>time (snapshots ! j) - t\<bar>) \<and>
          (\<forall>j<length snapshots. i < j \<longrightarrow>
               \<bar>time (snapshots ! i) - t\<bar> < \<bar>time (snapshots ! j) - t\<bar>)"
    using i(2) by blast
next
  assume "time (last snapshots) < t"
  then show "replay_callback snapshots (time (last snapshots)) t = Inr Stop"
    by (rule replay_callback_stop)
next
  assume a: "snapshots \<noteq> [] \<and> (\<forall>u\<in>set ts. u \<le> time (last snapshots)) \<and>
    time (last snapshots) < t"
  then have "snapshots \<noteq> []" "\<forall>u\<in>set ts. u \<le> time (last snapshots)"
    "time (last snapshots) < t" by simp_all
  from replay_prefix[OF this, of rest] obtain as
    where as: "replay snapshots (time (last snapshots)) (ts @ t # rest) = Inr (as @ [Stop])"
      "length as = length ts" "\<forall>a\<in>set as. \<exists>s\<in>set snapshots. a = Apply s" by blast
  from as(3) have "Stop \<notin> set as" by auto
  with as a show "\<exists>as. stop_button_click snapshots (ts @ t # rest) = Inr (as @ [Stop]) \<and>
            length as = length ts \<and> Stop \<notin> set as"
    by (auto simp: stop_button_click_def)
next
  assume m: "map time tr = [0, 100, 250]"
  then obtain a b c where tr: "tr = [a, b, c]" "time a = 0" "time b = 100" "time c = 250"
    by auto
  then show "replay_callback tr 250 120 = Inr (Apply (tr ! 1))"
    by (simp add: replay_callback_def keymin_def argmin_def reducer_def)
  from tr show "keymin tr (\<lambda>s. Inr \<bar>time s - 400\<bar>) = Inr (tr ! 2)"
    by (simp add: keymin_def argmin_def reducer_def)
  show "replay_callback tr 250 400 = Inr Stop"
    by (simp add: replay_callback_def)
qed

theorem replay_nearest_latest_witness:
  "trace3 \<noteq> [] \<and> 120 \<le> time (last trace3) \<and> time (last trace3) < 400 \<and>
   0 \<le> time (last trace3) \<and>
   map time trace3 = [0, 100, 250] \<and>
   replay_callback trace3 (time (last trace3)) 120 = Inr (Apply (trace3 ! 1)) \<and>
   replay_callback trace3 (time (last trace3)) 400 = Inr Stop \<and>
   stop_button_click trace3 ([0, 120] @ 400 # [500]) =
     Inr ([Apply (trace3 ! 0), Apply (trace3 ! 1)] @ [Stop])"
  using replay_nearest_latest[of trace3 120 "[0, 120]" "[500]" trace3]
  by (simp add: trace3_def replay_callback_def keymin_def argmin_def reducer_def
      stop_button_click_def)

text \<open>
  Claim C1 as stated breaks ties towards the earliest snapshot. In \<open>tie_trace\<close> the
  elapsed time \<open>50\<close> is at distance \<open>50\<close> from both snapshots, and the callback applies
  the second one: \<open>reducer\<close> keeps its left argument only when it is strictly smaller.
\<close>

theorem replay_tie_earliest_counterexample:
  "\<bar>time (tie_trace ! 0) - 50\<bar> = \<bar>time (tie_trace ! 1) - 50\<bar> \<and>
   50 \<le> time (last tie_trace) \<and>
   replay_callback tie_trace (time (last tie_trace)) 50 = Inr (Apply (tie_trace ! 1)) \<and>
   tie_trace ! 1 \<noteq> tie_trace ! 0"
  by (simp add: tie_trace_def replay_callback_def keymin_def argmin_def reducer_def)

text \<open>
  Claim C8. The claim says that replay of an empty trace is a no-op. The handler reads
  \<^verbatim>\<open>snapshots[snapshots.length - 1].time\<close> before the replay animation exists, so with
  an empty trace it throws; the guard \<^verbatim>\<open>else if (snapshots.length)\<close> inside the
  callback is never reached.
\<close>

theorem stop_button_click_empty: "stop_button_click [] ticks = Inl TypeError"
  by (simp add: stop_button_click_def)

subsection \<open>prunePanoramas\<close>

lemma flatMap_filter: "flatMap (\<lambda>x. if c x then [] else [f x]) xs = map f (filter (\<lambda>x. \<not> c x) xs)"
  by (induction xs) (simp_all add: flatMap_def)

lemma strip_filter: "strip ids xs = filter (\<lambda>i. i \<notin> set ids) xs"
  using flatMap_filter[of "\<lambda>i. i \<in> set ids" "\<lambda>i. i" xs] by (simp add: strip_def)

lemma strip_fun: "strip ids = filter (\<lambda>i. i \<notin> set ids)"
  by (rule ext) (rule strip_filter)

lemma prunePanoramas_fail:
  "\<not> may_prune ids env \<Longrightarrow> prunePanoramas ids env = Inl CannotPruneCurrent"
  by (auto simp: prunePanoramas_def may_prune_def split: option.splits)

lemma prunePanoramas_ok:
  "may_prune ids env \<Longrightarrow>
   prunePanoramas ids env =
     Inr (env\<lparr>panos := map (stripped ids) (filter (\<lambda>p. pano_id p \<notin> set ids) (panos env))\<rparr>)"
proof -
  assume m: "may_prune ids env"
  have "flatMap (\<lambda>pano.
          if pano_id pano \<in> set ids then []
          else [pano\<lparr>navigable := strip ids (navigable pano),
                     visible := map_option (strip ids) (visible pano)\<rparr>]) (panos env)
        = map (stripped ids) (filter (\<lambda>p. pano_id p \<notin> set ids) (panos env))"
    unfolding strip_fun stripped_def[symmetric]
    by (rule flatMap_filter)
  with m show ?thesis
    by (auto simp: prunePanoramas_def may_prune_def split: option.splits)
qed

lemma pano_id_stripped [simp]: "pano_id (stripped ids p) = pano_id p"
  by (simp add: stripped_def)

lemma adjacent_stripped: "adjacent (stripped ids p) = adjacent p - set ids"
  by (auto simp: adjacent_def stripped_def split: option.splits)

lemma node_ids_pruned:
  "node_ids (env\<lparr>panos := map (stripped ids) (filter (\<lambda>p. pano_id p \<notin> set ids) (panos env))\<rparr>)
     = node_ids env - set ids"
proof -
  have "pano_id ` set (map (stripped ids) (filter (\<lambda>p. pano_id p \<notin> set ids) (panos env)))
        = pano_id ` set (filter (\<lambda>p. pano_id p \<notin> set ids) (panos env))"
    by (simp add: image_image)
  then show ?thesis by (auto simp: node_ids_def)
qed

text \<open>
  Claim C4, amended. \<^verbatim>\<open>prunePanoramas(ids)\<close> throws when the current panorama is among
  \<open>ids\<close>. Otherwise it succeeds, removes exactly the panoramas named by \<open>ids\<close>, keeps
  the others in their order and strips \<open>ids\<close> from their \<^verbatim>\<open>navigable\<close> and \<^verbatim>\<open>visible\<close>
  lists, leaving everything else as it was. Afterwards no id of \<open>ids\<close> occurs in a
  remaining list, and every listed id that named a panorama before names one still
  present; hence a graph without dangling ids before the call has none after it.
\<close>

theorem prunePanoramas_keeps_adjacency:
  "(sourceId env = Some s \<and> s \<in> set ids \<longrightarrow> prunePanoramas ids env = Inl CannotPruneCurrent) \<and>
   ((\<forall>s. sourceId env = Some s \<longrightarrow> s \<notin> set ids) \<longrightarrow>
      (\<exists>env'. prunePanoramas ids env = Inr env' \<and>
         env' = env\<lparr>panos :=
           map (\<lambda>p. p\<lparr>navigable := filter (\<lambda>i. i \<notin> set ids) (navigable p),
                       visible := map_option (filter (\<lambda>i. i \<notin> set ids)) (visible p)\<rparr>)
             (filter (\<lambda>p. pano_id p \<notin> set ids) (panos env))\<rparr> \<and>
         node_ids env' = node_ids env - set ids \<and>
         (\<forall>p\<in>set (panos env'). \<forall>i\<in>adjacent p.
             i \<notin> set ids \<and> (i \<in> node_ids env \<longrightarrow> i \<in> node_ids env')) \<and>
         (no_dangling env \<longrightarrow> no_dangling env')))"
proof (intro conjI impI)
  assume "sourceId env = Some s \<and> s \<in> set ids"
  then have "\<not> may_prune ids env" by (auto simp: may_prune_def)
  then show "prunePanoramas ids env = Inl CannotPruneCurrent" by (rule prunePanoramas_fail)
next
  assume "\<forall>s. sourceId env = Some s \<longrightarrow> s \<notin> set ids"
  then have m: "may_prune ids env" by (simp add: may_prune_def)
  let ?ps = "map (stripped ids) (filter (\<lambda>p. pano_id p \<notin> set ids) (panos env))"
  let ?env' = "env\<lparr>panos := ?ps\<rparr>"
  have r: "prunePanoramas ids env = Inr ?env'" by (rule prunePanoramas_ok[OF m])
  have e: "?env' = env\<lparr>panos :=
           map (\<lambda>p. p\<lparr>navigable := filter (\<lambda>i. i \<notin> set ids) (navigable p),
                       visible := map_option (filter (\<lambda>i. i \<notin> set ids)) (visible p)\<rparr>)
             (filter (\<lambda>p. pano_id p \<notin> set ids) (panos env))\<rparr>"
    unfolding stripped_def[abs_def] ..
  have n: "node_ids ?env' = node_ids env - set ids" by (rule node_ids_pruned)
  have a: "\<forall>p\<in>set (panos ?env'). \<forall>i\<in>adjacent p.
             i \<notin> set ids \<and> (i \<in> node_ids env \<longrightarrow> i \<in> node_ids ?env')"
    using n by (auto simp: adjacent_stripped)
  have d: "no_dangling env \<longrightarrow> no_dangling ?env'"
    unfolding no_dangling_def n by (auto simp: adjacent_stripped)
  show "\<exists>env'. prunePanoramas ids env = Inr env' \<and>
         env' = env\<lparr>panos :=
           map (\<lambda>p. p\<lparr>navigable := filter (\<lambda>i. i \<notin> set ids) (navigable p),
                       visible := map_option (filter (\<lambda>i. i \<notin> set ids)) (visible p)\<rparr>)
             (filter (\<lambda>p. pano_id p \<notin> set ids) (panos env))\<rparr> \<and>
         node_ids env' = node_ids env - set ids \<and>
         (\<forall>p\<in>set (panos env'). \<forall>i\<in>adjacent p.
             i \<notin> set ids \<and> (i \<in> node_ids env \<longrightarrow> i \<in> node_ids env')) \<and>
         (no_dangling env \<longrightarrow> no_dangling env')"
  proof (intro exI conjI)
    show "prunePanoramas ids env = Inr ?env'" by (rule r)
    show "?env' = env\<lparr>panos :=
           map (\<lambda>p. p\<lparr>navigable := filter (\<lambda>i. i \<notin> set ids) (navigable p),
                       visible := map_option (filter (\<lambda>i. i \<notin> set ids)) (visible p)\<rparr>)
             (filter (\<lambda>p. pano_id p \<notin> set ids) (panos env))\<rparr>" by (rule e)
    show "node_ids ?env' = node_ids env - set ids" by (rule n)
    show "\<forall>p\<in>set (panos ?env'). \<forall>i\<in>adjacent p.
             i \<notin> set ids \<and> (i \<in> node_ids env \<longrightarrow> i \<in> node_ids ?env')" by (rule a)
    show "no_dangling env \<longrightarrow> no_dangling ?env'" by (rule d)
  qed
qed

text \<open>
  Claim C4 as stated promises an adjacency without dangling ids after every successful
  call. Pruning strips only the ids it is given: in \<open>dangling_env\<close> panorama \<open>A\<close> lists
  \<open>Z\<close>, which names no panorama, and after pruning \<open>B\<close> it still does.
\<close>

theorem prunePanoramas_dangling_counterexample:
  "prunePanoramas [''B''] dangling_env =
     Inr (dangling_env\<lparr>panos :=
       [\<lparr>pano_id = ''A'', exmat = translation 0 0 0, urls = [], navigable = [''Z''],
         visible = None, curpos = None\<rparr>]\<rparr>) \<and>
   ''Z'' \<notin> pano_id ` set [\<lparr>pano_id = ''A'', exmat = translation 0 0 0, urls = [],
         navigable = [''Z''], visible = None, curpos = None\<rparr>]"
  by (simp add: prunePanoramas_def dangling_env_def flatMap_def strip_def)

theorem prunePanoramas_keeps_adjacency_witness:
  "sourceId dangling_env = Some ''A'' \<and> ''A'' \<in> set [''A''] \<and> ''A'' \<notin> set [''B''] \<and>
   prunePanoramas [''A''] dangling_env = Inl CannotPruneCurrent \<and>
   (\<exists>env'. prunePanoramas [''B''] dangling_env = Inr env' \<and>
      node_ids env' = node_ids dangling_env - set [''B''])"
  using prunePanoramas_keeps_adjacency[of dangling_env "''A''" "[''A'']"]
    prunePanoramas_keeps_adjacency[of dangling_env "''A''" "[''B'']"]
  by (simp add: dangling_env_def)

subsection \<open>keepPanoramas\<close>

lemma prunePanoramas_cong:
  assumes "set a = set b"
  shows "prunePanoramas a env = prunePanoramas b env"
  unfolding prunePanoramas_def strip_def assms ..

lemma complement_set:
  "set (flatMap (\<lambda>pano. if pano_id pano \<in> set ids then [] else [pano_id pano]) ps)
     = pano_id ` set ps - set ids"
  using flatMap_filter[of "\<lambda>p. pano_id p \<in> set ids" pano_id ps] by auto

lemma keepPanoramas_complement:
  "set cs = node_ids env - set ids \<Longrightarrow> keepPanoramas ids env = prunePanoramas cs env"
  unfolding keepPanoramas_def Let_def node_ids_def
  by (rule prunePanoramas_cong) (simp add: complement_set)

lemma stripped_stripped:
  "stripped b (stripped a p) = stripped c (stripped d p)" if "set a \<union> set b = set c \<union> set d"
proof -
  have "\<And>xs. filter (\<lambda>i. i \<notin> set b) (filter (\<lambda>i. i \<notin> set a) xs)
      = filter (\<lambda>i. i \<notin> set c) (filter (\<lambda>i. i \<notin> set d) xs)"
    using that by (auto intro!: filter_cong)
  then show ?thesis
    by (cases "visible p") (simp_all add: stripped_def)
qed

lemma keepPanoramas_alt: "keepPanoramas ids env = prunePanoramas (complement ids env) env"
  by (simp add: keepPanoramas_def complement_def)

lemma set_complement: "set (complement ids env) = node_ids env - set ids"
  by (simp add: complement_def complement_set node_ids_def)

lemma prunePanoramas_pruned:
  "prunePanoramas ids env = (if may_prune ids env then Inr (pruned ids env) else Inl CannotPruneCurrent)"
  by (simp add: prunePanoramas_ok prunePanoramas_fail pruned_def)

lemma may_prune_pruned [simp]: "may_prune a (pruned b env) = may_prune a env"
  by (simp add: may_prune_def pruned_def)

lemma node_ids_pruned': "node_ids (pruned ids env) = node_ids env - set ids"
  unfolding pruned_def by (rule node_ids_pruned)

lemma pruned_list_twice:
  "map (stripped B) (filter (\<lambda>p. pano_id p \<notin> set B)
      (map (stripped A) (filter (\<lambda>p. pano_id p \<notin> set A) ps)))
   = map (\<lambda>p. stripped B (stripped A p)) (filter (\<lambda>p. pano_id p \<notin> set A \<union> set B) ps)"
  by (induction ps) auto

lemma pruned_pruned_eq:
  assumes "set A \<union> set B = set C \<union> set D"
  shows "pruned B (pruned A env) = pruned D (pruned C env)"
proof -
  have "map (\<lambda>p. stripped B (stripped A p)) (filter (\<lambda>p. pano_id p \<notin> set A \<union> set B) (panos env))
      = map (\<lambda>p. stripped D (stripped C p)) (filter (\<lambda>p. pano_id p \<notin> set C \<union> set D) (panos env))"
    using assms stripped_stripped[of A B D C] by (simp add: Un_commute)
  then show ?thesis
    by (simp add: pruned_def pruned_list_twice)
qed

lemma call_prunePanoramas:
  "call (prunePanoramas ids) env =
     (if may_prune ids env then (None, pruned ids env) else (Some CannotPruneCurrent, env))"
  by (simp add: call_def prunePanoramas_pruned)

lemma call_keepPanoramas:
  "call (keepPanoramas ids) env =
     (if may_prune (complement ids env) env then (None, pruned (complement ids env) env)
      else (Some CannotPruneCurrent, env))"
  by (simp add: call_def keepPanoramas_alt prunePanoramas_pruned)

lemma may_prune_complement_pruned:
  "may_prune P env \<Longrightarrow>
   may_prune (complement K (pruned P env)) env = may_prune (complement K env) env"
  unfolding may_prune_def set_complement node_ids_pruned' by blast

lemma sequence_prune_keep:
  "in_sequence (prunePanoramas P) (keepPanoramas K) env =
     (if \<not> may_prune P env then (Some CannotPruneCurrent, env)
      else if \<not> may_prune (complement K env) env then (Some CannotPruneCurrent, pruned P env)
      else (None, pruned (complement K (pruned P env)) (pruned P env)))"
  by (simp add: in_sequence_def call_prunePanoramas call_keepPanoramas
      may_prune_complement_pruned)

lemma sequence_keep_prune:
  "in_sequence (keepPanoramas K) (prunePanoramas P) env =
     (if \<not> may_prune (complement K env) env then (Some CannotPruneCurrent, env)
      else if \<not> may_prune P env then (Some CannotPruneCurrent, pruned (complement K env) env)
      else (None, pruned P (pruned (complement K env) env)))"
  by (simp add: in_sequence_def call_prunePanoramas call_keepPanoramas)

lemma pruned_keep_commute:
  "pruned (complement K (pruned P env)) (pruned P env) = pruned P (pruned (complement K env) env)"
proof -
  have "set P \<union> set (complement K (pruned P env)) = set (complement K env) \<union> set P"
    unfolding set_complement node_ids_pruned' by blast
  then show ?thesis by (rule pruned_pruned_eq)
qed

lemma pruned_keep_ids:
  assumes "set P \<inter> set K = {}"
  shows "map pano_id (panos (pruned (complement K (pruned P env)) (pruned P env)))
     = filter (\<lambda>i. i \<in> set K) (map pano_id (panos env))"
proof -
  let ?C1 = "complement K (pruned P env)"
  have c1: "set ?C1 = node_ids env - set P - set K"
    by (simp add: set_complement node_ids_pruned')
  have "map pano_id (panos (pruned ?C1 (pruned P env)))
      = map pano_id (filter (\<lambda>p. pano_id p \<notin> set P \<union> set ?C1) (panos env))"
    by (simp add: pruned_def pruned_list_twice comp_def)
  also have "\<dots> = filter (\<lambda>i. i \<notin> set P \<union> set ?C1) (map pano_id (panos env))"
    by (simp add: filter_map comp_def)
  also have "\<dots> = filter (\<lambda>i. i \<in> set K) (map pano_id (panos env))"
    using assms unfolding c1 node_ids_def by (intro filter_cong) auto
  finally show ?thesis .
qed

text \<open>
  Claim C5, amended. \<^verbatim>\<open>keepPanoramas(ids)\<close> is \<^verbatim>\<open>prunePanoramas\<close> of any listing of the ids
  of the current panoramas that are not in \<open>ids\<close>. For disjoint \<open>P\<close> and \<open>K\<close>, pruning \<open>P\<close>
  and then keeping \<open>K\<close> throws exactly when keeping \<open>K\<close> and then pruning \<open>P\<close> throws,
  with the same exception: when the current panorama is in \<open>P\<close>, or is a panorama of the
  graph outside \<open>K\<close>. When they do not throw, both orders leave the same environment,
  whose panoramas are those of the original graph with an id in \<open>K\<close>. Nothing is said
  about the graph a throwing sequence leaves behind.
\<close>

theorem keepPanoramas_prune_commute_when_complete:
  "(set cs = pano_id ` set (panos env) - set ids \<longrightarrow>
      keepPanoramas ids env = prunePanoramas cs env) \<and>
   (set P \<inter> set K = {} \<longrightarrow>
      fst (in_sequence (prunePanoramas P) (keepPanoramas K) env)
        = fst (in_sequence (keepPanoramas K) (prunePanoramas P) env) \<and>
      (fst (in_sequence (prunePanoramas P) (keepPanoramas K) env) = None \<longleftrightarrow>
         (\<forall>s. sourceId env = Some s \<longrightarrow> s \<notin> set P \<and> (s \<in> set K \<or> s \<notin> node_ids env))) \<and>
      (fst (in_sequence (prunePanoramas P) (keepPanoramas K) env) = None \<longrightarrow>
         in_sequence (prunePanoramas P) (keepPanoramas K) env
           = in_sequence (keepPanoramas K) (prunePanoramas P) env \<and>
         map pano_id (panos (snd (in_sequence (prunePanoramas P) (keepPanoramas K) env)))
           = filter (\<lambda>i. i \<in> set K) (map pano_id (panos env))))"
proof (intro conjI impI)
  assume "set cs = pano_id ` set (panos env) - set ids"
  then show "keepPanoramas ids env = prunePanoramas cs env"
    by (intro keepPanoramas_complement) (simp add: node_ids_def)
next
  show "fst (in_sequence (prunePanoramas P) (keepPanoramas K) env)
        = fst (in_sequence (keepPanoramas K) (prunePanoramas P) env)"
    by (simp add: sequence_prune_keep sequence_keep_prune)
next
  show "fst (in_sequence (prunePanoramas P) (keepPanoramas K) env) = None \<longleftrightarrow>
         (\<forall>s. sourceId env = Some s \<longrightarrow> s \<notin> set P \<and> (s \<in> set K \<or> s \<notin> node_ids env))"
    unfolding sequence_prune_keep
    by (auto simp: may_prune_def set_complement)
next
  assume n: "fst (in_sequence (prunePanoramas P) (keepPanoramas K) env) = None"
  then have m: "may_prune P env" "may_prune (complement K env) env"
    by (auto simp: sequence_prune_keep split: if_splits)
  then show "in_sequence (prunePanoramas P) (keepPanoramas K) env
           = in_sequence (keepPanoramas K) (prunePanoramas P) env"
    by (simp add: sequence_prune_keep sequence_keep_prune pruned_keep_commute)
  assume d: "set P \<inter> set K = {}"
  from m pruned_keep_ids[OF d, of env]
  show "map pano_id (panos (snd (in_sequence (prunePanoramas P) (keepPanoramas K) env)))
           = filter (\<lambda>i. i \<in> set K) (map pano_id (panos env))"
    by (simp add: sequence_prune_keep)
qed

lemmas prune_eval =
  abc_env_def in_sequence_def call_def prunePanoramas_def keepPanoramas_def flatMap_def
  strip_def node_ids_def

theorem keepPanoramas_prune_commute_when_complete_witness:
  "set [''A'', ''B''] = pano_id ` set (panos abc_env) - set [''C''] \<and>
   keepPanoramas [''C''] abc_env = prunePanoramas [''A'', ''B''] abc_env \<and>
   set [''C''] \<inter> set [''A'', ''B''] = {} \<and>
   fst (in_sequence (prunePanoramas [''C'']) (keepPanoramas [''A'', ''B'']) abc_env) = None \<and>
   in_sequence (prunePanoramas [''C'']) (keepPanoramas [''A'', ''B'']) abc_env
     = in_sequence (keepPanoramas [''A'', ''B'']) (prunePanoramas [''C'']) abc_env \<and>
   map pano_id (panos (snd (in_sequence (prunePanoramas [''C''])
      (keepPanoramas [''A'', ''B'']) abc_env))) = [''A'', ''B'']"
  using keepPanoramas_prune_commute_when_complete[of "[''A'', ''B'']" abc_env "[''C'']"
      "[''C'']" "[''A'', ''B'']"]
  by (auto simp: prune_eval)

text \<open>
  Claim C5 as stated gives both orders the same resulting node set for every graph and
  every disjoint \<open>P\<close> and \<open>K\<close>. In \<open>abc_env\<close> the current panorama is A. Pruning C and then
  keeping only B removes C before \<^verbatim>\<open>keepPanoramas\<close> throws, and leaves A and B; keeping
  only B and then pruning C throws in the first call, and leaves A, B and C.
\<close>

theorem prune_keep_order_counterexample:
  "set [''C''] \<inter> set [''B''] = {} \<and>
   sourceId abc_env = Some ''A'' \<and>
   fst (in_sequence (prunePanoramas [''C'']) (keepPanoramas [''B'']) abc_env)
     = Some CannotPruneCurrent \<and>
   map pano_id (panos (snd (in_sequence (prunePanoramas [''C'']) (keepPanoramas [''B''])
      abc_env))) = [''A'', ''B''] \<and>
   fst (in_sequence (keepPanoramas [''B'']) (prunePanoramas [''C'']) abc_env)
     = Some CannotPruneCurrent \<and>
   map pano_id (panos (snd (in_sequence (keepPanoramas [''B'']) (prunePanoramas [''C''])
      abc_env))) = [''A'', ''B'', ''C'']"
  by (simp add: prune_eval)

subsection \<open>Pruning ids that do not occur\<close>

lemma stripped_id: "adjacent p \<inter> set ids = {} \<Longrightarrow> stripped ids p = p"
proof -
  assume a: "adjacent p \<inter> set ids = {}"
  then have n: "filter (\<lambda>i. i \<notin> set ids) (navigable p) = navigable p"
    by (auto simp: adjacent_def filter_id_conv)
  have v: "map_option (filter (\<lambda>i. i \<notin> set ids)) (visible p) = visible p"
  proof (cases "visible p")
    case None
    then show ?thesis by simp
  next
    case (Some vs)
    with a have "filter (\<lambda>i. i \<notin> set ids) vs = vs"
      by (auto simp: adjacent_def filter_id_conv)
    with Some show ?thesis by simp
  qed
  show ?thesis by (simp add: stripped_def n v)
qed

lemma pruned_id:
  assumes "set ids \<inter> node_ids env = {}" "\<forall>p\<in>set (panos env). adjacent p \<inter> set ids = {}"
  shows "pruned ids env = env"
proof -
  from assms(1) have "filter (\<lambda>p. pano_id p \<notin> set ids) (panos env) = panos env"
    by (auto simp: filter_id_conv node_ids_def)
  moreover from assms(2) have "map (stripped ids) (panos env) = panos env"
    by (simp add: map_idI stripped_id)
  ultimately show ?thesis by (simp add: pruned_def)
qed

text \<open>
  Claim C10. Pruning ids that occur nowhere in the graph, neither as the id of a
  panorama nor in a \<^verbatim>\<open>navigable\<close> or \<^verbatim>\<open>visible\<close> list, and that do not include the
  current panorama, throws nothing and returns the environment unchanged. In a graph
  without dangling ids it is enough that the ids name no panorama.
\<close>

theorem prunePanoramas_unknown_ids:
  "((\<forall>i\<in>set ids. i \<notin> node_ids env \<and> (\<forall>p\<in>set (panos env). i \<notin> adjacent p)) \<and>
    (\<forall>s. sourceId env = Some s \<longrightarrow> s \<notin> set ids)
      \<longrightarrow> prunePanoramas ids env = Inr env) \<and>
   (no_dangling env \<and> (\<forall>i\<in>set ids. i \<notin> node_ids env) \<and>
    (\<forall>s. sourceId env = Some s \<longrightarrow> s \<notin> set ids)
      \<longrightarrow> prunePanoramas ids env = Inr env)"
proof (intro conjI impI)
  assume a: "(\<forall>i\<in>set ids. i \<notin> node_ids env \<and> (\<forall>p\<in>set (panos env). i \<notin> adjacent p)) \<and>
    (\<forall>s. sourceId env = Some s \<longrightarrow> s \<notin> set ids)"
  then have "set ids \<inter> node_ids env = {}" "\<forall>p\<in>set (panos env). adjacent p \<inter> set ids = {}"
    by auto
  then have "pruned ids env = env" by (rule pruned_id)
  moreover from a have "may_prune ids env" by (simp add: may_prune_def)
  ultimately show "prunePanoramas ids env = Inr env" by (simp add: prunePanoramas_pruned)
next
  assume a: "no_dangling env \<and> (\<forall>i\<in>set ids. i \<notin> node_ids env) \<and>
    (\<forall>s. sourceId env = Some s \<longrightarrow> s \<notin> set ids)"
  then have "set ids \<inter> node_ids env = {}" by auto
  moreover from a have "\<forall>p\<in>set (panos env). adjacent p \<inter> set ids = {}"
    unfolding no_dangling_def by blast
  ultimately have "pruned ids env = env" by (rule pruned_id)
  moreover from a have "may_prune ids env" by (simp add: may_prune_def)
  ultimately show "prunePanoramas ids env = Inr env" by (simp add: prunePanoramas_pruned)
qed

theorem prunePanoramas_unknown_ids_witness:
  "''Q'' \<notin> node_ids abc_env \<and> sourceId abc_env = Some ''A'' \<and> ''A'' \<notin> set [''Q''] \<and>
   prunePanoramas [''Q''] abc_env = Inr abc_env"
  using prunePanoramas_unknown_ids[of "[''Q'']" abc_env]
  by (simp add: abc_env_def node_ids_def adjacent_def)

subsection \<open>Lookup\<close>

lemma find_distinct:
  "distinct (map pano_id ps) \<Longrightarrow> p \<in> set ps \<Longrightarrow> find (\<lambda>q. pano_id q = pano_id p) ps = Some p"
  by (induction ps) (auto simp: image_iff)

lemma getPanorama_distinct:
  "distinct (map pano_id (panos env)) \<Longrightarrow> p \<in> set (panos env) \<Longrightarrow>
   getPanorama env (pano_id p) = Inr p"
  by (simp add: getPanorama_def find_distinct)

lemma getPosition_distinct:
  "distinct (map pano_id (panos env)) \<Longrightarrow> p \<in> set (panos env) \<Longrightarrow>
   getPosition env (pano_id p) = Inr (position p)"
  by (simp add: getPosition_def getExmat_def getPanorama_distinct position_def)

lemma keymin_on:
  assumes "array \<noteq> []" "\<forall>x\<in>set array. fn x = Inr (g x)"
  shows "\<exists>i. last_argmin (map g array) i \<and> keymin array fn = Inr (array ! i)"
proof -
  from assms(2) have m: "mapE fn array = Inr (map g array)"
    by (rule mapE_total)
  from assms(1) have "map g array \<noteq> []" by simp
  from argmin_nonempty[OF this] obtain i
    where "argmin (map g array) = Inr i" "last_argmin (map g array) i" by blast
  with m show ?thesis by (auto simp: keymin_def)
qed

lemma keymin_Nil: "keymin [] fn = Inl TypeError"
  by (simp add: keymin_def argmin_def)

subsection \<open>Distances\<close>

lemma distanceToSquared_nonneg: "0 \<le> distanceToSquared a b"
  by (simp add: distanceToSquared_def dot_def)

lemma distanceTo_nonneg: "0 \<le> distanceTo a b"
  by (simp add: distanceTo_def distanceToSquared_nonneg)

lemma distanceTo_self [simp]: "distanceTo a a = 0"
  by (simp add: distanceTo_def distanceToSquared_def dot_def sub_def)

lemma distanceTo_eq_0: "distanceTo a b = 0 \<Longrightarrow> a = b"
proof -
  assume "distanceTo a b = 0"
  then have "(vx a - vx b) * (vx a - vx b) + (vy a - vy b) * (vy a - vy b)
      + (vz a - vz b) * (vz a - vz b) = 0"
    by (simp add: distanceTo_def distanceToSquared_def dot_def sub_def)
  then have "vx a - vx b = 0 \<and> vy a - vy b = 0 \<and> vz a - vz b = 0"
    by (smt (verit) mult_eq_0_iff zero_le_square)
  then show "a = b"
    by (cases a; cases b) simp
qed

subsection \<open>getClosest\<close>

lemma getClosest_last_argmin:
  assumes "distinct (map pano_id (panos env))" "panos env \<noteq> []"
  shows "\<exists>k. last_argmin (map (\<lambda>p. distanceTo (position p) pos) (panos env)) k \<and>
             getClosest env pos = Inr (pano_id (panos env ! k))"
proof -
  have "\<forall>p\<in>set (panos env).
      and_then (getPosition env (pano_id p)) (\<lambda>q. Inr (distanceTo q pos))
        = Inr (distanceTo (position p) pos)"
    using assms(1) by (simp add: getPosition_distinct)
  from keymin_on[OF assms(2) this] obtain k
    where "last_argmin (map (\<lambda>p. distanceTo (position p) pos) (panos env)) k"
      "keymin (panos env)
         (\<lambda>pano. and_then (getPosition env (pano_id pano)) (\<lambda>p. Inr (distanceTo p pos)))
       = Inr (panos env ! k)" by blast
  then show ?thesis by (auto simp: getClosest_def)
qed

lemma getClosest_empty: "panos env = [] \<Longrightarrow> getClosest env pos = Inl TypeError"
  by (simp add: getClosest_def keymin_Nil)

text \<open>
  Claim C6, amended. In a non-empty graph with unique ids, \<^verbatim>\<open>getClosest(pos)\<close> returns the
  id of a panorama whose position (the translation column of its \<^verbatim>\<open>exmat\<close>) minimises the
  Euclidean distance to \<open>pos\<close>, and among equally near panoramas the one stored last.
  Called on the position of a panorama of the graph it returns that panorama's id,
  provided no panorama stored later has the same position.
\<close>

theorem getClosest_nearest_latest:
  "distinct (map pano_id (panos env)) \<and> panos env \<noteq> [] \<longrightarrow>
     (\<exists>k<length (panos env).
        getClosest env pos = Inr (pano_id (panos env ! k)) \<and>
        (\<forall>j<length (panos env).
           distanceTo (position (panos env ! k)) pos \<le> distanceTo (position (panos env ! j)) pos) \<and>
        (\<forall>j<length (panos env). k < j \<longrightarrow>
           distanceTo (position (panos env ! k)) pos < distanceTo (position (panos env ! j)) pos)) \<and>
     (\<forall>k<length (panos env).
        (\<forall>j<length (panos env). k < j \<longrightarrow> position (panos env ! j) \<noteq> position (panos env ! k)) \<longrightarrow>
        getClosest env (position (panos env ! k)) = Inr (pano_id (panos env ! k)))"
proof (intro impI conjI allI)
  assume a: "distinct (map pano_id (panos env)) \<and> panos env \<noteq> []"
  then have d: "distinct (map pano_id (panos env))" and n: "panos env \<noteq> []" by simp_all
  from getClosest_last_argmin[OF d n, of pos] obtain k
    where k: "last_argmin (map (\<lambda>p. distanceTo (position p) pos) (panos env)) k"
      "getClosest env pos = Inr (pano_id (panos env ! k))" by blast
  then show "\<exists>k<length (panos env).
        getClosest env pos = Inr (pano_id (panos env ! k)) \<and>
        (\<forall>j<length (panos env).
           distanceTo (position (panos env ! k)) pos \<le> distanceTo (position (panos env ! j)) pos) \<and>
        (\<forall>j<length (panos env). k < j \<longrightarrow>
           distanceTo (position (panos env ! k)) pos < distanceTo (position (panos env ! j)) pos)"
    unfolding last_argmin_map by blast
next
  fix k
  assume a: "distinct (map pano_id (panos env)) \<and> panos env \<noteq> []"
    and kl: "k < length (panos env)"
    and later: "\<forall>j<length (panos env). k < j \<longrightarrow>
        position (panos env ! j) \<noteq> position (panos env ! k)"
  let ?pos = "position (panos env ! k)"
  from a have d: "distinct (map pano_id (panos env))" and n: "panos env \<noteq> []" by simp_all
  from getClosest_last_argmin[OF d n, of ?pos] obtain m
    where m: "last_argmin (map (\<lambda>p. distanceTo (position p) ?pos) (panos env)) m"
      "getClosest env ?pos = Inr (pano_id (panos env ! m))" by blast
  from m(1) kl have le: "distanceTo (position (panos env ! m)) ?pos \<le> distanceTo ?pos ?pos"
    and ml: "m < length (panos env)"
    and lt: "m < k \<longrightarrow> distanceTo (position (panos env ! m)) ?pos < distanceTo ?pos ?pos"
    unfolding last_argmin_map by blast+
  from le distanceTo_nonneg[of "position (panos env ! m)" ?pos]
  have "distanceTo (position (panos env ! m)) ?pos = 0" by simp
  then have same: "position (panos env ! m) = ?pos" by (rule distanceTo_eq_0)
  from lt distanceTo_nonneg[of "position (panos env ! m)" ?pos] have "\<not> m < k" by auto
  moreover from same later ml have "\<not> k < m" by blast
  ultimately have "m = k" by simp
  with m(2) show "getClosest env ?pos = Inr (pano_id (panos env ! k))" by simp
qed

theorem getClosest_nearest_latest_witness:
  "distinct (map pano_id (panos abc_env)) \<and> panos abc_env \<noteq> [] \<and>
   getClosest abc_env (Vector3 (1/4) 0 0) = Inr ''A'' \<and>
   getClosest abc_env (position (panos abc_env ! 1)) = Inr (pano_id (panos abc_env ! 1))"
  using getClosest_nearest_latest[of abc_env "Vector3 (1/4) 0 0"]
  by (simp add: abc_env_def getClosest_def keymin_def argmin_def reducer_def getPosition_def
      getExmat_def getPanorama_def setFromMatrixPosition_def translation_def distanceTo_def
      distanceToSquared_def dot_def sub_def position_def)

text \<open>
  Claim C6 as stated breaks ties towards the first panorama in storage order and calls
  \<^verbatim>\<open>getClosest\<close> idempotent on the graph's own positions. In \<open>tie_env\<close> the origin is at
  distance \<open>1\<close> from both panoramas and the second one, \<open>B\<close>, is returned. In \<open>twin_env\<close>
  the two panoramas share a position, and the position of \<open>A\<close> is answered with \<open>B\<close>.
\<close>

theorem getClosest_first_occurrence_counterexample:
  "distanceTo (position (panos tie_env ! 0)) (Vector3 0 0 0)
     = distanceTo (position (panos tie_env ! 1)) (Vector3 0 0 0) \<and>
   getClosest tie_env (Vector3 0 0 0) = Inr ''B'' \<and>
   pano_id (panos tie_env ! 0) = ''A'' \<and>
   getClosest twin_env (position (panos twin_env ! 0)) = Inr ''B'' \<and>
   pano_id (panos twin_env ! 0) = ''A''"
  by (simp add: tie_env_def twin_env_def getClosest_def keymin_def argmin_def reducer_def
      getPosition_def getExmat_def getPanorama_def setFromMatrixPosition_def translation_def
      distanceTo_def distanceToSquared_def dot_def sub_def position_def)

subsection \<open>LineDrawing\<close>

lemma newLineDrawing_anchors:
  assumes "newLineDrawing env points = Inr d"
  shows "subpoints d = points \<and> length (anchors d) = length points \<and>
         (\<forall>i<length points. getClosest env (points ! i) = Inr (anchors d ! i))"
proof -
  from assms obtain as where as: "mapE (getClosest env) points = Inr as"
    and d: "d = \<lparr>subpoints = points, anchors = as, children_visible = map (\<lambda>_. True) points\<rparr>"
    by (auto simp: newLineDrawing_def and_then_eq_Inr)
  from mapE_Inr_length[OF as] mapE_Inr_nth[OF as] d show ?thesis by simp
qed

lemma child_visible_current:
  assumes "sourceId env = Some cur" "getVisible env cur = Inr vs"
  shows "child_visible env anchor = Inr (anchor = cur \<or> anchor \<in> set vs)"
  using assms by (auto simp: child_visible_def)

lemma drawing_update_current:
  assumes "sourceId env = Some cur" "getVisible env cur = Inr vs"
  shows "drawing_update env d =
           Inr (d\<lparr>children_visible := map (\<lambda>a. a = cur \<or> a \<in> set vs) (anchors d)\<rparr>)"
proof -
  have "mapE (child_visible env) (anchors d)
      = Inr (map (\<lambda>a. a = cur \<or> a \<in> set vs) (anchors d))"
    by (rule mapE_total) (simp add: child_visible_current[OF assms])
  then show ?thesis by (simp add: drawing_update_def)
qed

lemma getVisible_abc_A: "getVisible abc_env ''A'' = Inr [''B'']"
  by (simp add: abc_env_def getVisible_def getPanorama_def)

lemma getVisible_abc_C: "getVisible (abc_env\<lparr>sourceId := Some ''C''\<rparr>) ''C'' = Inr [''B'']"
  by (simp add: abc_env_def getVisible_def getNavigable_def getPanorama_def)

text \<open>
  Claim C7. The constructor binds the anchor of every subpoint to
  \<^verbatim>\<open>getClosest(subpoint)\<close> in the environment it is given. \<^verbatim>\<open>update\<close>, in an environment
  whose current panorama \<open>cur\<close> is in the graph, leaves anchors and subpoints as they are
  and shows child \<open>i\<close> iff its anchor is \<open>cur\<close> or a member of \<^verbatim>\<open>getVisible(cur)\<close>. In the
  graph \<open>abc_env\<close> (A and B see each other, B and C see each other, A and C do not), with
  current panorama A exactly the subpoints anchored at A or B are shown, and with
  current panorama C exactly those anchored at B or C, whatever the drawing.
\<close>

theorem LineDrawing_visibility:
  "(newLineDrawing env0 points = Inr d \<longrightarrow>
      subpoints d = points \<and> length (anchors d) = length points \<and>
      (\<forall>i<length points. getClosest env0 (points ! i) = Inr (anchors d ! i))) \<and>
   (sourceId env = Some cur \<and> getVisible env cur = Inr vs \<longrightarrow>
      (\<exists>d'. drawing_update env d = Inr d' \<and>
         anchors d' = anchors d \<and> subpoints d' = subpoints d \<and>
         length (children_visible d') = length (anchors d) \<and>
         (\<forall>i<length (anchors d).
            children_visible d' ! i \<longleftrightarrow> anchors d ! i = cur \<or> anchors d ! i \<in> set vs))) \<and>
   (\<exists>d'. drawing_update abc_env d = Inr d' \<and>
      (\<forall>i<length (anchors d).
         children_visible d' ! i \<longleftrightarrow> anchors d ! i = ''A'' \<or> anchors d ! i = ''B'')) \<and>
   (\<exists>d'. drawing_update (abc_env\<lparr>sourceId := Some ''C''\<rparr>) d = Inr d' \<and>
      (\<forall>i<length (anchors d).
         children_visible d' ! i \<longleftrightarrow> anchors d ! i = ''B'' \<or> anchors d ! i = ''C''))"
proof (intro conjI impI)
  assume "newLineDrawing env0 points = Inr d"
  then have *: "subpoints d = points \<and> length (anchors d) = length points \<and>
         (\<forall>i<length points. getClosest env0 (points ! i) = Inr (anchors d ! i))"
    by (rule newLineDrawing_anchors)
  from * show "subpoints d = points" by simp
  from * show "length (anchors d) = length points" by simp
  from * show "\<forall>i<length points. getClosest env0 (points ! i) = Inr (anchors d ! i)" by simp
next
  assume "sourceId env = Some cur \<and> getVisible env cur = Inr vs"
  then have "drawing_update env d =
           Inr (d\<lparr>children_visible := map (\<lambda>a. a = cur \<or> a \<in> set vs) (anchors d)\<rparr>)"
    by (intro drawing_update_current) simp_all
  then show "\<exists>d'. drawing_update env d = Inr d' \<and>
         anchors d' = anchors d \<and> subpoints d' = subpoints d \<and>
         length (children_visible d') = length (anchors d) \<and>
         (\<forall>i<length (anchors d).
            children_visible d' ! i \<longleftrightarrow> anchors d ! i = cur \<or> anchors d ! i \<in> set vs)"
    by simp
next
  have "sourceId abc_env = Some ''A''" by (simp add: abc_env_def)
  from drawing_update_current[OF this getVisible_abc_A, of d]
  show "\<exists>d'. drawing_update abc_env d = Inr d' \<and>
      (\<forall>i<length (anchors d).
         children_visible d' ! i \<longleftrightarrow> anchors d ! i = ''A'' \<or> anchors d ! i = ''B'')"
    by simp
next
  have "sourceId (abc_env\<lparr>sourceId := Some ''C''\<rparr>) = Some ''C''" by simp
  from drawing_update_current[OF this getVisible_abc_C, of d]
  show "\<exists>d'. drawing_update (abc_env\<lparr>sourceId := Some ''C''\<rparr>) d = Inr d' \<and>
      (\<forall>i<length (anchors d).
         children_visible d' ! i \<longleftrightarrow> anchors d ! i = ''B'' \<or> anchors d ! i = ''C'')"
    by auto
qed

lemmas abc_eval =
  abc_env_def abc_path_def abc_drawing_def newLineDrawing_def getClosest_def keymin_def
  argmin_def reducer_def getPosition_def getExmat_def getPanorama_def getVisible_def
  getNavigable_def setFromMatrixPosition_def translation_def distanceTo_def
  distanceToSquared_def dot_def sub_def drawing_update_def child_visible_def

theorem LineDrawing_visibility_witness:
  "newLineDrawing abc_env abc_path = Inr abc_drawing \<and>
   sourceId abc_env = Some ''A'' \<and> getVisible abc_env ''A'' = Inr [''B''] \<and>
   drawing_update abc_env abc_drawing =
     Inr (abc_drawing\<lparr>children_visible := [True, True, True, True, False, False]\<rparr>) \<and>
   drawing_update (abc_env\<lparr>sourceId := Some ''C''\<rparr>) abc_drawing =
     Inr (abc_drawing\<lparr>children_visible := [False, False, True, True, True, True]\<rparr>)"
  using LineDrawing_visibility[of abc_env abc_path abc_drawing abc_env "''A''" "[''B'']"]
  by (simp add: abc_eval)

subsection \<open>Navigator.update\<close>

lemma Infinity_le [simp]: "Infinity \<le> x \<longleftrightarrow> x = Infinity"
  by (cases x) simp_all

lemma distances_nth:
  "j < length curposs \<Longrightarrow>
   distances ray curposs ! j =
     (if dot (sub (curposs ! j) (origin ray)) (direction ray) < 0 then Infinity
      else Finite (distanceToPoint ray (curposs ! j)))"
  by (simp add: distances_def)

lemma length_distances [simp]: "length (distances ray curposs) = length curposs"
  by (simp add: distances_def)

lemma update_select:
  assumes src: "truthy (Some source)" "sourceId nav = Some source"
    and nb: "getNavigable nav source = Inr neighbors" "neighbors \<noteq> []"
    and cp: "mapE (getCurpos nav) neighbors = Inr curposs"
  shows "\<exists>i. last_argmin (distances ray curposs) i \<and>
           update ray nav =
             Inr (if distances ray curposs ! i = Infinity
                  then nav\<lparr>cursor_visible := False, targetId := None\<rparr>
                  else nav\<lparr>cursor_visible := True, targetId := Some (neighbors ! i)\<rparr>)"
proof -
  from mapE_Inr_length[OF cp] nb(2) have "distances ray curposs \<noteq> []"
    by (auto simp: distances_def)
  from argmin_nonempty[OF this] obtain i
    where i: "argmin (distances ray curposs) = Inr i" "last_argmin (distances ray curposs) i"
    by blast
  with src nb cp show ?thesis
    by (intro exI[of _ i]) (simp add: update_def)
qed

text \<open>With no navigable neighbour the selection block is skipped: cursor and target
  keep whatever values they had.\<close>

lemma update_no_neighbors:
  "truthy (Some source) \<Longrightarrow> sourceId nav = Some source \<Longrightarrow>
   getNavigable nav source = Inr [] \<Longrightarrow> update ray nav = Inr nav"
  by (simp add: update_def)

text \<open>
  Claim C3, amended. On a tick with a current panorama that has at least one navigable
  neighbour, all of them known to the graph, \<^verbatim>\<open>update\<close> returns. A selected target is a
  navigable neighbour whose direction from the ray origin has a non-negative dot
  product with the ray direction and whose cursor position is nearest to the ray among
  the neighbours with a non-negative dot product, the last such neighbour when several
  are equally near; the cursor is then visible. A neighbour with a negative dot
  product is never selected. When every neighbour has a negative dot product, no
  target is selected and the cursor is hidden; otherwise a target is selected.
\<close>

theorem update_target_selection:
  "truthy (Some source) \<and> sourceId nav = Some source \<and>
   getNavigable nav source = Inr neighbors \<and> neighbors \<noteq> [] \<and>
   mapE (getCurpos nav) neighbors = Inr curposs \<longrightarrow>
     (\<exists>nav'. update ray nav = Inr nav' \<and>
        (\<forall>n. targetId nav' = Some n \<longrightarrow>
           cursor_visible nav' \<and>
           (\<exists>i<length neighbors. n = neighbors ! i \<and>
              0 \<le> dot (sub (curposs ! i) (origin ray)) (direction ray) \<and>
              (\<forall>j<length neighbors.
                 0 \<le> dot (sub (curposs ! j) (origin ray)) (direction ray) \<longrightarrow>
                 distanceToPoint ray (curposs ! i) \<le> distanceToPoint ray (curposs ! j)) \<and>
              (\<forall>j<length neighbors.
                 i < j \<and> 0 \<le> dot (sub (curposs ! j) (origin ray)) (direction ray) \<longrightarrow>
                 distanceToPoint ray (curposs ! i) < distanceToPoint ray (curposs ! j)))) \<and>
        ((\<forall>j<length neighbors. dot (sub (curposs ! j) (origin ray)) (direction ray) < 0) \<longrightarrow>
           targetId nav' = None \<and> \<not> cursor_visible nav') \<and>
        ((\<exists>j<length neighbors. 0 \<le> dot (sub (curposs ! j) (origin ray)) (direction ray)) \<longrightarrow>
           targetId nav' \<noteq> None \<and> cursor_visible nav'))"
proof
  assume a: "truthy (Some source) \<and> sourceId nav = Some source \<and>
   getNavigable nav source = Inr neighbors \<and> neighbors \<noteq> [] \<and>
   mapE (getCurpos nav) neighbors = Inr curposs"
  then have cp: "mapE (getCurpos nav) neighbors = Inr curposs" by simp
  have len: "length curposs = length neighbors" by (rule mapE_Inr_length[OF cp])
  let ?dp = "\<lambda>j. dot (sub (curposs ! j) (origin ray)) (direction ray)"
  let ?ds = "distances ray curposs"
  from a update_select[of source nav neighbors curposs ray] obtain i
    where i: "last_argmin ?ds i"
      and u: "update ray nav =
             Inr (if ?ds ! i = Infinity
                  then nav\<lparr>cursor_visible := False, targetId := None\<rparr>
                  else nav\<lparr>cursor_visible := True, targetId := Some (neighbors ! i)\<rparr>)"
    by blast
  from i len have il: "i < length neighbors"
    and le: "\<And>j. j < length neighbors \<Longrightarrow> ?ds ! i \<le> ?ds ! j"
    and lt: "\<And>j. j < length neighbors \<Longrightarrow> i < j \<Longrightarrow> ?ds ! i < ?ds ! j"
    by (simp_all add: last_argmin_def)
  show "\<exists>nav'. update ray nav = Inr nav' \<and>
        (\<forall>n. targetId nav' = Some n \<longrightarrow>
           cursor_visible nav' \<and>
           (\<exists>i<length neighbors. n = neighbors ! i \<and>
              0 \<le> ?dp i \<and>
              (\<forall>j<length neighbors. 0 \<le> ?dp j \<longrightarrow>
                 distanceToPoint ray (curposs ! i) \<le> distanceToPoint ray (curposs ! j)) \<and>
              (\<forall>j<length neighbors. i < j \<and> 0 \<le> ?dp j \<longrightarrow>
                 distanceToPoint ray (curposs ! i) < distanceToPoint ray (curposs ! j)))) \<and>
        ((\<forall>j<length neighbors. ?dp j < 0) \<longrightarrow>
           targetId nav' = None \<and> \<not> cursor_visible nav') \<and>
        ((\<exists>j<length neighbors. 0 \<le> ?dp j) \<longrightarrow>
           targetId nav' \<noteq> None \<and> cursor_visible nav')"
  proof (cases "?ds ! i = Infinity")
    case True
    have all: "\<forall>j<length neighbors. ?dp j < 0"
    proof (intro allI impI)
      fix j assume j: "j < length neighbors"
      from le[OF j] True have "?ds ! j = Infinity" by simp
      with j len show "?dp j < 0" by (simp add: distances_nth split: if_splits)
    qed
    from u True have "update ray nav = Inr (nav\<lparr>cursor_visible := False, targetId := None\<rparr>)"
      by simp
    with all show ?thesis by (intro exI[of _ "nav\<lparr>cursor_visible := False, targetId := None\<rparr>"]) auto
  next
    case False
    with il len have dpi: "0 \<le> ?dp i" and di: "?ds ! i = Finite (distanceToPoint ray (curposs ! i))"
      by (simp_all add: distances_nth split: if_splits)
    have a1: "\<forall>j<length neighbors. 0 \<le> ?dp j \<longrightarrow>
                 distanceToPoint ray (curposs ! i) \<le> distanceToPoint ray (curposs ! j)"
    proof (intro allI impI)
      fix j assume j: "j < length neighbors" and "0 \<le> ?dp j"
      with len have "?ds ! j = Finite (distanceToPoint ray (curposs ! j))"
        by (simp add: distances_nth)
      with le[OF j] di show "distanceToPoint ray (curposs ! i) \<le> distanceToPoint ray (curposs ! j)"
        by simp
    qed
    have a2: "\<forall>j<length neighbors. i < j \<and> 0 \<le> ?dp j \<longrightarrow>
                 distanceToPoint ray (curposs ! i) < distanceToPoint ray (curposs ! j)"
    proof (intro allI impI)
      fix j assume j: "j < length neighbors" and ij: "i < j \<and> 0 \<le> ?dp j"
      with len have "?ds ! j = Finite (distanceToPoint ray (curposs ! j))"
        by (simp add: distances_nth)
      with lt[OF j] ij di show "distanceToPoint ray (curposs ! i) < distanceToPoint ray (curposs ! j)"
        by simp
    qed
    from u False have r: "update ray nav =
        Inr (nav\<lparr>cursor_visible := True, targetId := Some (neighbors ! i)\<rparr>)"
      by simp
    have ex: "\<exists>k<length neighbors. neighbors ! i = neighbors ! k \<and>
              0 \<le> ?dp k \<and>
              (\<forall>j<length neighbors. 0 \<le> ?dp j \<longrightarrow>
                 distanceToPoint ray (curposs ! k) \<le> distanceToPoint ray (curposs ! j)) \<and>
              (\<forall>j<length neighbors. k < j \<and> 0 \<le> ?dp j \<longrightarrow>
                 distanceToPoint ray (curposs ! k) < distanceToPoint ray (curposs ! j))"
      using il dpi a1 a2 by blast
    have none: "\<not> (\<forall>j<length neighbors. ?dp j < 0)"
      using il dpi by (auto simp: not_less)
    show ?thesis
      apply (rule exI[of _ "nav\<lparr>cursor_visible := True, targetId := Some (neighbors ! i)\<rparr>"])
      apply (rule conjI, rule r)
      apply (rule conjI)
      using ex apply simp
      using none apply simp
      done
  qed
qed

lemmas nav_eval =
  abc_nav_def abc_env_def look_ray_def east_ray_def update_def truthy_def getNavigable_def
  getCurpos_def getPosition_def getExmat_def getPanorama_def setFromMatrixPosition_def
  translation_def distances_def distanceToPoint_def distanceSqToPoint_def
  distanceToSquared_def dot_def sub_def add_def multiplyScalar_def argmin_def reducer_def

theorem update_target_selection_witness:
  "truthy (Some ''B'') \<and> sourceId (abc_nav\<lparr>sourceId := Some ''B''\<rparr>) = Some ''B'' \<and>
   getNavigable (abc_nav\<lparr>sourceId := Some ''B''\<rparr>) ''B'' = Inr [''A'', ''C''] \<and>
   mapE (getCurpos (abc_nav\<lparr>sourceId := Some ''B''\<rparr>)) [''A'', ''C'']
     = Inr [Vector3 0 0 0, Vector3 2 0 0] \<and>
   update east_ray (abc_nav\<lparr>sourceId := Some ''B''\<rparr>)
     = Inr (abc_nav\<lparr>sourceId := Some ''B'', cursor_visible := True, targetId := Some ''C''\<rparr>)"
  using update_target_selection[of "''B''" "abc_nav\<lparr>sourceId := Some ''B''\<rparr>"
      "[''A'', ''C'']" "[Vector3 0 0 0, Vector3 2 0 0]" east_ray]
  by (simp add: nav_eval)

text \<open>
  Claim C3 as stated excludes every neighbour whose dot product with the view ray is
  non-positive. The code rejects only \<^verbatim>\<open>dot < 0\<close>: with the camera of \<open>abc_nav\<close> at A
  looking along \<open>-z\<close>, the neighbour B lies in the viewing plane (dot product \<open>0\<close>) and
  is selected.
\<close>

theorem update_orthogonal_counterexample:
  "getCurpos abc_nav ''B'' = Inr (Vector3 1 0 0) \<and>
   dot (sub (Vector3 1 0 0) (origin look_ray)) (direction look_ray) = 0 \<and>
   update look_ray abc_nav = Inr (abc_nav\<lparr>cursor_visible := True, targetId := Some ''B''\<rparr>)"
  by (simp add: nav_eval)

subsection \<open>setPanorama\<close>

lemma setPanorama_current: "sourceId env = Some i \<Longrightarrow> setPanorama i env = (None, env)"
  by (simp add: setPanorama_def)

lemma getPanorama_sourceId [simp]: "getPanorama (env\<lparr>sourceId := s\<rparr>) i = getPanorama env i"
  by (simp add: getPanorama_def)

lemma getPosition_sourceId [simp]: "getPosition (env\<lparr>sourceId := s\<rparr>) i = getPosition env i"
  by (simp add: getPosition_def getExmat_def)

lemma setPanorama_unknown:
  "sourceId env \<noteq> Some i \<Longrightarrow> getPanorama env i = Inl e \<Longrightarrow>
   setPanorama i env = (Some e, env\<lparr>sourceId := Some i\<rparr>)"
  by (simp add: setPanorama_def getPosition_def getExmat_def)

lemma setPanorama_known:
  "sourceId env \<noteq> Some i \<Longrightarrow> getPanorama env i = Inr pano \<Longrightarrow>
   setPanorama i env =
     (None, env\<lparr>sourceId := Some i, camera_position := position pano,
                requested := requested env @ [i] @ navigable pano\<rparr>)"
  by (simp add: setPanorama_def getPosition_def getExmat_def getNavigable_def getPanorama_def
      position_def)

lemma setPanorama_fov [simp]: "camera_fov (snd (setPanorama i env)) = camera_fov env"
  by (simp add: setPanorama_def Let_def split: sum.splits)

lemma setPanorama_ok_sourceId:
  "setPanorama i env = (None, env') \<Longrightarrow> sourceId env' = Some i"
  by (auto simp: setPanorama_def Let_def split: sum.splits if_splits)

text \<open>
  Claim C2. The claim says that a failing \<^verbatim>\<open>setPanorama\<close> leaves the current-panorama
  pointer as it was. \<^verbatim>\<open>this.sourceId = id\<close> is executed before \<^verbatim>\<open>getPosition(id)\<close> throws:
  in \<open>abc_env\<close>, whose current panorama is A, the call for the unknown id \<open>Z\<close> throws and
  leaves \<open>sourceId\<close> at \<open>Z\<close>; a second call for \<open>Z\<close> is then skipped as already set.
\<close>

theorem setPanorama_unknown_id_moves_pointer:
  "getPanorama abc_env ''Z'' = Inl (PanoramaNotFound ''Z'') \<and>
   sourceId abc_env = Some ''A'' \<and>
   setPanorama ''Z'' abc_env = (Some (PanoramaNotFound ''Z''), abc_env\<lparr>sourceId := Some ''Z''\<rparr>) \<and>
   setPanorama ''Z'' (abc_env\<lparr>sourceId := Some ''Z''\<rparr>) = (None, abc_env\<lparr>sourceId := Some ''Z''\<rparr>)"
  by (simp add: setPanorama_def getPosition_def getExmat_def getPanorama_def abc_env_def)

subsection \<open>Transitions\<close>

lemma onUpdate_fov: "camera_fov (onUpdate fov0 fov1 nav t) = (1 - t) * fov0 + t * fov1"
  by (simp add: onUpdate_def)

lemma onComplete_fov [simp]: "camera_fov (snd (onComplete fov0 target nav)) = fov0"
proof (cases "setPanorama target (nav\<lparr>camera_fov := fov0\<rparr>)")
  case (Pair e nav')
  from setPanorama_fov[of target "nav\<lparr>camera_fov := fov0\<rparr>"] Pair
  have "camera_fov nav' = fov0" by simp
  with Pair show ?thesis by (cases e) (simp_all add: onComplete_def)
qed

lemma onComplete_ignores_fov:
  "onComplete fov0 target (nav\<lparr>camera_fov := x\<rparr>) = onComplete fov0 target nav"
  by (simp add: onComplete_def)

lemma onComplete_ok:
  assumes "onComplete fov0 target nav = (None, nav')"
  shows "sourceId nav' = Some target \<and> controls_enabled nav'"
proof (cases "setPanorama target (nav\<lparr>camera_fov := fov0\<rparr>)")
  case (Pair e n)
  with assms have e: "e = None" and n: "nav' = n\<lparr>controls_enabled := True\<rparr>"
    by (cases e; simp add: onComplete_def)+
  from Pair e have "sourceId n = Some target" by (simp add: setPanorama_ok_sourceId)
  with n show ?thesis by simp
qed

lemma ondblclick_fov: "camera_fov (snd (ondblclick tween_times nav)) = camera_fov nav"
  by (simp add: ondblclick_def Let_def split: option.splits sum.splits)

lemma ondblclick_transition:
  assumes "controls_enabled nav" "truthy (targetId nav)"
    "sourceId nav = Some source" "targetId nav = Some target"
    "getPosition nav source = Inr p0" "getPosition nav target = Inr p1"
    "vlength (sub p1 p0) \<noteq> 0"
  shows "ondblclick tween_times nav =
     onComplete (camera_fov nav) target
       (foldl (onUpdate (camera_fov nav)
          (camera_fov nav * min (vlength (sub p1 p0)) (1 / vlength (sub p1 p0))))
          (nav\<lparr>controls_enabled := False\<rparr>) tween_times)"
proof -
  have "getPosition (nav\<lparr>controls_enabled := False\<rparr>) = getPosition nav"
    by (intro ext) (simp add: getPosition_def getExmat_def getPanorama_def)
  with assms show ?thesis by (simp add: ondblclick_def Let_def)
qed

text \<open>
  Claim C9. Whatever \<^verbatim>\<open>ondblclick\<close> does, the field of view it leaves is the one it
  found. When a transition starts (controls enabled, a target selected, both panoramas
  known, at distance \<open>d \<noteq> 0\<close>), every \<^verbatim>\<open>onUpdate\<close> at tween time \<open>t\<close> sets the field of view
  to \<open>(1 - t) * fov0 + t * fov1\<close> with \<open>fov1 = fov0 * min d (1 / d)\<close>, and \<^verbatim>\<open>onComplete\<close>
  resets it to \<open>fov0\<close> before it calls \<^verbatim>\<open>setPanorama\<close>: its result does not depend on the
  field of view the animation left, and when it succeeds the target is the current
  panorama, the controls are enabled and the field of view is \<open>fov0\<close>.
\<close>

theorem transition_restores_fov:
  "camera_fov (snd (ondblclick tween_times nav)) = camera_fov nav \<and>
   (controls_enabled nav \<and> truthy (targetId nav) \<and>
    sourceId nav = Some source \<and> targetId nav = Some target \<and>
    getPosition nav source = Inr p0 \<and> getPosition nav target = Inr p1 \<and>
    vlength (sub p1 p0) \<noteq> 0 \<longrightarrow>
      ondblclick tween_times nav =
        onComplete (camera_fov nav) target
          (foldl (onUpdate (camera_fov nav)
             (camera_fov nav * min (vlength (sub p1 p0)) (1 / vlength (sub p1 p0))))
             (nav\<lparr>controls_enabled := False\<rparr>) tween_times)) \<and>
   camera_fov (foldl (onUpdate fov0 fov1) n (ts @ [t])) = (1 - t) * fov0 + t * fov1 \<and>
   onComplete fov0 tgt (n\<lparr>camera_fov := x\<rparr>) = onComplete fov0 tgt n \<and>
   camera_fov (snd (onComplete fov0 tgt n)) = fov0 \<and>
   (onComplete fov0 tgt n = (None, n') \<longrightarrow>
      sourceId n' = Some tgt \<and> controls_enabled n' \<and> camera_fov n' = fov0)"
proof (intro conjI impI)
  show "camera_fov (snd (ondblclick tween_times nav)) = camera_fov nav"
    by (rule ondblclick_fov)
next
  assume "controls_enabled nav \<and> truthy (targetId nav) \<and>
    sourceId nav = Some source \<and> targetId nav = Some target \<and>
    getPosition nav source = Inr p0 \<and> getPosition nav target = Inr p1 \<and>
    vlength (sub p1 p0) \<noteq> 0"
  then have h: "controls_enabled nav" "truthy (targetId nav)"
    "sourceId nav = Some source" "targetId nav = Some target"
    "getPosition nav source = Inr p0" "getPosition nav target = Inr p1"
    "vlength (sub p1 p0) \<noteq> 0" by blast+
  show "ondblclick tween_times nav =
        onComplete (camera_fov nav) target
          (foldl (onUpdate (camera_fov nav)
             (camera_fov nav * min (vlength (sub p1 p0)) (1 / vlength (sub p1 p0))))
             (nav\<lparr>controls_enabled := False\<rparr>) tween_times)"
    by (rule ondblclick_transition[OF h])
next
  show "camera_fov (foldl (onUpdate fov0 fov1) n (ts @ [t])) = (1 - t) * fov0 + t * fov1"
    by (simp add: onUpdate_fov)
next
  show "onComplete fov0 tgt (n\<lparr>camera_fov := x\<rparr>) = onComplete fov0 tgt n"
    by (rule onComplete_ignores_fov)
next
  show "camera_fov (snd (onComplete fov0 tgt n)) = fov0" by (rule onComplete_fov)
next
  assume a: "onComplete fov0 tgt n = (None, n')"
  from onComplete_ok[OF a] show "sourceId n' = Some tgt" by simp
  from onComplete_ok[OF a] show "controls_enabled n'" by simp
  from onComplete_fov[of fov0 tgt n] a show "camera_fov n' = fov0" by simp
qed

theorem transition_restores_fov_witness:
  "controls_enabled (abc_nav\<lparr>targetId := Some ''C''\<rparr>) \<and> truthy (Some ''C'') \<and>
   getPosition (abc_nav\<lparr>targetId := Some ''C''\<rparr>) ''A'' = Inr (Vector3 0 0 0) \<and>
   getPosition (abc_nav\<lparr>targetId := Some ''C''\<rparr>) ''C'' = Inr (Vector3 2 0 0) \<and>
   vlength (sub (Vector3 2 0 0) (Vector3 0 0 0)) = 2 \<and>
   camera_fov (foldl (onUpdate 50 (50 * min 2 (1 / 2))) abc_nav ([1 / 2] @ [1])) = 25 \<and>
   ondblclick [1 / 2, 1] (abc_nav\<lparr>targetId := Some ''C''\<rparr>) =
     (None, abc_nav\<lparr>targetId := Some ''C'', sourceId := Some ''C'',
                    camera_position := Vector3 2 0 0, requested := [''C'', ''B'']\<rparr>) \<and>
   camera_fov (snd (ondblclick [1 / 2, 1] (abc_nav\<lparr>targetId := Some ''C''\<rparr>))) = 50"
  using transition_restores_fov[of "[1 / 2, 1]" "abc_nav\<lparr>targetId := Some ''C''\<rparr>" "''A''" "''C''"
      "Vector3 0 0 0" "Vector3 2 0 0" 50 "50 * min 2 (1 / 2)" "abc_nav" "[1 / 2]" 1 "''C''" 50
      "abc_nav\<lparr>sourceId := Some ''C'', camera_position := Vector3 2 0 0,
         requested := [''C'', ''B'']\<rparr>"]
  by (simp add: nav_eval ondblclick_def onComplete_def onUpdate_def setPanorama_def vlength_def)

end
